theory Spec2Isabelle
  imports Complex_Main "HOL-Library.Multiset"
begin

section \<open>Baymax: two Naive Bayes classifiers\<close>

text \<open>
  The repository holds two notebooks. The spam notebook trains a multinomial text
  classifier at module level and defines \<^verbatim>\<open>classify\<close>; the census notebook
  defines the class \<^verbatim>\<open>NaiveBayesClassifier\<close> with \<^verbatim>\<open>train\<close> and
  \<^verbatim>\<open>predict\<close> over a table of discrete values.

  Numbers: counts are Python integers (\<open>nat\<close>); probabilities and their logarithms
  are double-precision floats in the source and are modelled as \<open>real\<close>, with
  \<open>np.log\<close> as \<open>ln\<close>. In the spam notebook, and in the census notebook for a
  smoothing parameter \<open>\<alpha> > 0\<close>, every logarithm taken has a positive argument, so
  no infinity and no NaN arises. Rounding is not modelled.
\<close>

datatype py_error = IndexError | KeyError | ZeroDivisionError | ValueError

subsection \<open>Dictionaries and \<^verbatim>\<open>max\<close>\<close>

text \<open>
  A Python dictionary iterates in insertion order. Where the order is observable
  (the class tables, over which \<^verbatim>\<open>max\<close> runs) a dictionary is an association list
  with distinct keys; elsewhere it is a map.
\<close>

type_synonym ('k, 'v) dict = "('k \<times> 'v) list"

definition getitem :: "('k \<rightharpoonup> 'v) \<Rightarrow> 'k \<Rightarrow> py_error + 'v" where
  "getitem m k = (case m k of None \<Rightarrow> Inl KeyError | Some v \<Rightarrow> Inr v)"

text \<open>
  \<^verbatim>\<open>max(d, key=d.get)\<close>: the keys are visited in order, the candidate is replaced
  only by a key whose value is strictly greater, and an empty dictionary raises
  \<^verbatim>\<open>ValueError\<close>.
\<close>

fun max_loop :: "'k \<times> real \<Rightarrow> ('k, real) dict \<Rightarrow> 'k" where
  "max_loop (k, v) [] = k"
| "max_loop (k, v) ((k', v') # d) =
     (if v < v' then max_loop (k', v') d else max_loop (k, v) d)"

fun py_max :: "('k, real) dict \<Rightarrow> py_error + 'k" where
  "py_max [] = Inl ValueError"
| "py_max (kv # d) = Inr (max_loop kv d)"

subsection \<open>The spam notebook: cleaning and splitting text\<close>

text \<open>
  The character classes of the two regular expressions, \<^verbatim>\<open>[^a-zA-Z ]\<close> in training
  and \<^verbatim>\<open>[^a-zA-Z]\<close> in \<^verbatim>\<open>classify\<close>, and \<^verbatim>\<open>str.lower\<close> on what they leave.
  A character of a \<open>string\<close> is a byte; a character outside ASCII is several bytes,
  none of them a letter or a space, so it is removed or replaced as a whole and the
  words are those of the Python string.
\<close>

definition is_letter :: "char \<Rightarrow> bool" where
  "is_letter c = (c \<in> set ''abcdefghijklmnopqrstuvwxyzABCDEFGHIJKLMNOPQRSTUVWXYZ'')"

definition lower_char :: "char \<Rightarrow> char" where
  "lower_char c =
     (case map_of (zip ''ABCDEFGHIJKLMNOPQRSTUVWXYZ'' ''abcdefghijklmnopqrstuvwxyz'') c of
        None \<Rightarrow> c | Some l \<Rightarrow> l)"

text \<open>
  \<^verbatim>\<open>str.split()\<close> on a string whose only whitespace is the space character: the
  maximal runs of other characters, in order. The first argument is the word being
  read.
\<close>

fun split_acc :: "string \<Rightarrow> string \<Rightarrow> string list" where
  "split_acc w [] = (if w = [] then [] else [w])"
| "split_acc w (c # cs) =
     (if c = CHR '' '' then (if w = [] then split_acc [] cs else w # split_acc [] cs)
      else split_acc (w @ [c]) cs)"

definition str_split :: "string \<Rightarrow> string list" where
  "str_split s = split_acc [] s"

text \<open>
  Training: \<^verbatim>\<open>str.replace('[^a-zA-Z ]', '', regex=True).str.lower()\<close>, then
  \<^verbatim>\<open>str.split()\<close>.
\<close>

definition clean_training_text :: "string \<Rightarrow> string list" where
  "clean_training_text t =
     str_split (map lower_char (filter (\<lambda>c. is_letter c \<or> c = CHR '' '') t))"

text \<open>
  \<^verbatim>\<open>classify\<close>: \<^verbatim>\<open>re.sub('[^a-zA-Z]', ' ', message).lower()\<close>, then
  \<^verbatim>\<open>message.split()\<close>.
\<close>

definition clean_message :: "string \<Rightarrow> string list" where
  "clean_message message =
     str_split (map lower_char (map (\<lambda>c. if is_letter c then c else CHR '' '') message))"

subsection \<open>The spam notebook: training at module level\<close>

text \<open>
  A row of the data set is its \<^verbatim>\<open>Label\<close> and its \<^verbatim>\<open>Text\<close>. The input of the
  model is \<^verbatim>\<open>shuffled_data\<close>, the rows after reading and shuffling.
\<close>

type_synonym row = "string \<times> string"

text \<open>
  \<^verbatim>\<open>split_index = int(len(shuffled_data) * 0.8)\<close>: four fifths of the length,
  rounded down.
\<close>

definition split_index :: "row list \<Rightarrow> nat" where
  "split_index shuffled_data = (length shuffled_data * 4) div 5"

definition training_data :: "row list \<Rightarrow> row list" where
  "training_data shuffled_data = take (split_index shuffled_data) shuffled_data"

definition testing_data :: "row list \<Rightarrow> row list" where
  "testing_data shuffled_data = drop (split_index shuffled_data) shuffled_data"

definition cleaned_training_data :: "row list \<Rightarrow> (string \<times> string list) list" where
  "cleaned_training_data shuffled_data =
     map (\<lambda>(label, text). (label, clean_training_text text)) (training_data shuffled_data)"

text \<open>
  \<^verbatim>\<open>Series.value_counts()\<close>: the number of rows of each distinct label, largest
  first. The notebook reads it by position, \<^verbatim>\<open>[0]\<close> and \<^verbatim>\<open>[1]\<close>; a position
  past the end raises \<^verbatim>\<open>IndexError\<close>.
\<close>

definition value_counts :: "string list \<Rightarrow> nat list" where
  "value_counts labels = rev (sort (map (count_list labels) (remdups labels)))"

definition iloc :: "'a list \<Rightarrow> nat \<Rightarrow> py_error + 'a" where
  "iloc xs i = (if i < length xs then Inr (xs ! i) else Inl IndexError)"

text \<open>
  The module's variables that \<^verbatim>\<open>classify\<close> reads, as they stand when the
  training cell has run. \<^verbatim>\<open>key\<close> is the loop variable of the last
  \<^verbatim>\<open>for key in word_frequency.keys()\<close>, which Python leaves bound.
\<close>

record globals =
  log_priors :: "(string, real) dict"
  vocabulary :: "string list"
  words_in_spam :: nat
  words_in_ham :: nat
  word_log_prob :: "(string, string \<rightharpoonup> real) dict"
  key :: string
  alpha :: nat

text \<open>
  \<^verbatim>\<open>N_ham\<close>, \<^verbatim>\<open>N_spam\<close>, \<^verbatim>\<open>n\<close> and the two priors are computed from
  \<^verbatim>\<open>shuffled_data\<close>, with \<^verbatim>\<open>+ 1\<close> and \<^verbatim>\<open>number_of_classes = 2\<close> written out.
\<close>

definition class_priors :: "row list \<Rightarrow> py_error + (string, real) dict" where
  "class_priors shuffled_data =
     (case iloc (value_counts (map fst shuffled_data)) 0 of
        Inl e \<Rightarrow> Inl e
      | Inr N_ham \<Rightarrow>
     (case iloc (value_counts (map fst shuffled_data)) 1 of
        Inl e \<Rightarrow> Inl e
      | Inr N_spam \<Rightarrow>
          let n = length shuffled_data;
              number_of_classes = 2;
              P_ham = (real N_ham + 1) / (real n + number_of_classes);
              P_spam = (real N_spam + 1) / (real n + number_of_classes)
          in Inr [(''ham'', ln P_ham), (''spam'', ln P_spam)]))"

text \<open>
  \<^verbatim>\<open>vocabulary\<close>: a set filled word by word and then turned into a list. The order
  of that list is arbitrary; the notebook uses only its length and membership in it.
\<close>

definition unique_words :: "(string \<times> string list) list \<Rightarrow> string list" where
  "unique_words cleaned = remdups (concat (map snd cleaned))"

text \<open>
  \<^verbatim>\<open>for key in {'ham', 'spam'}\<close> visits the two strings in an order that depends
  on their hashes, which Python randomises per process: the order is an input.
\<close>

datatype set_order = Ham_Spam | Spam_Ham

fun set_iteration :: "set_order \<Rightarrow> string list" where
  "set_iteration Ham_Spam = [''ham'', ''spam'']"
| "set_iteration Spam_Ham = [''spam'', ''ham'']"

text \<open>The inner dictionary every class starts with: each vocabulary word at 0.\<close>

definition zero_counts :: "string list \<Rightarrow> (string \<rightharpoonup> nat)" where
  "zero_counts vocab = map_of (map (\<lambda>word. (word, 0)) vocab)"

text \<open>
  The counting loops. \<^verbatim>\<open>word_frequency[label][word] += 1\<close> reads the entry
  before writing it, so a word without an entry raises \<^verbatim>\<open>KeyError\<close>.
\<close>

fun count_text :: "(string \<rightharpoonup> nat) \<times> nat \<Rightarrow> string list \<Rightarrow> py_error + (string \<rightharpoonup> nat) \<times> nat" where
  "count_text (freq, n_words) [] = Inr (freq, n_words)"
| "count_text (freq, n_words) (word # text) =
     (case freq word of
        None \<Rightarrow> Inl KeyError
      | Some c \<Rightarrow> count_text (freq(word \<mapsto> c + 1), n_words + 1) text)"

fun count_messages :: "(string \<rightharpoonup> nat) \<times> nat \<Rightarrow> string list list \<Rightarrow> py_error + (string \<rightharpoonup> nat) \<times> nat" where
  "count_messages s [] = Inr s"
| "count_messages s (text # texts) =
     (case count_text s text of Inl e \<Rightarrow> Inl e | Inr s' \<Rightarrow> count_messages s' texts)"

text \<open>\<^verbatim>\<open>cleaned_training_data[cleaned_training_data['Label'] == label]['Text']\<close>.\<close>

definition messages_of :: "string \<Rightarrow> (string \<times> string list) list \<Rightarrow> string list list" where
  "messages_of label cleaned = map snd (filter (\<lambda>r. fst r = label) cleaned)"

text \<open>
  The result of the counting phase: \<^verbatim>\<open>word_frequency\<close> with its keys in the order
  the set gave them, and the two totals. The spam messages are counted first.
\<close>

record frequency_counts =
  word_frequency :: "(string, string \<rightharpoonup> nat) dict"
  spam_total :: nat
  ham_total :: nat

definition count_words :: "set_order \<Rightarrow> (string \<times> string list) list \<Rightarrow> py_error + frequency_counts" where
  "count_words ord cleaned =
     (let vocab = unique_words cleaned in
      case count_messages (zero_counts vocab, 0) (messages_of ''spam'' cleaned) of
        Inl e \<Rightarrow> Inl e
      | Inr (spam_freq, n_spam) \<Rightarrow>
     (case count_messages (zero_counts vocab, 0) (messages_of ''ham'' cleaned) of
        Inl e \<Rightarrow> Inl e
      | Inr (ham_freq, n_ham) \<Rightarrow>
          Inr \<lparr>word_frequency =
                 map (\<lambda>k. (k, if k = ''spam'' then spam_freq else ham_freq)) (set_iteration ord),
               spam_total = n_spam, ham_total = n_ham\<rparr>))"

text \<open>
  The loop that fills \<^verbatim>\<open>word_log_prob[key]\<close>, one vocabulary word at a time;
  \<^verbatim>\<open>word_frequency[key][word]\<close> raises \<^verbatim>\<open>KeyError\<close> on a missing word.
\<close>

fun fill_log_prob :: "(string \<rightharpoonup> nat) \<Rightarrow> nat \<Rightarrow> nat \<Rightarrow> nat \<Rightarrow> (string \<rightharpoonup> real) \<Rightarrow> string list
    \<Rightarrow> py_error + (string \<rightharpoonup> real)" where
  "fill_log_prob freq N_words a N_vocab tbl [] = Inr tbl"
| "fill_log_prob freq N_words a N_vocab tbl (word # ws) =
     (case freq word of
        None \<Rightarrow> Inl KeyError
      | Some N_wi_label \<Rightarrow>
          let prob = (real N_wi_label + real a) / (real N_words + real a * real N_vocab)
          in fill_log_prob freq N_words a N_vocab (tbl(word \<mapsto> ln prob)) ws)"

text \<open>The outer loop, over \<^verbatim>\<open>word_frequency.keys()\<close>.\<close>

fun fill_classes :: "frequency_counts \<Rightarrow> nat \<Rightarrow> string list \<Rightarrow> (string, string \<rightharpoonup> nat) dict
    \<Rightarrow> py_error + (string, string \<rightharpoonup> real) dict" where
  "fill_classes fc a vocab [] = Inr []"
| "fill_classes fc a vocab ((k, freq) # d) =
     (let N_words = (if k = ''spam'' then spam_total fc else ham_total fc) in
      case fill_log_prob freq N_words a (length vocab) Map.empty vocab of
        Inl e \<Rightarrow> Inl e
      | Inr tbl \<Rightarrow>
          (case fill_classes fc a vocab d of
             Inl e \<Rightarrow> Inl e
           | Inr rest \<Rightarrow> Inr ((k, tbl) # rest)))"

text \<open>The training cell as a whole.\<close>

definition training_cell :: "set_order \<Rightarrow> row list \<Rightarrow> py_error + globals" where
  "training_cell ord shuffled_data =
     (let cleaned = cleaned_training_data shuffled_data in
      case class_priors shuffled_data of
        Inl e \<Rightarrow> Inl e
      | Inr priors \<Rightarrow>
     (case count_words ord cleaned of
        Inl e \<Rightarrow> Inl e
      | Inr fc \<Rightarrow>
     (case fill_classes fc 1 (unique_words cleaned) (word_frequency fc) of
        Inl e \<Rightarrow> Inl e
      | Inr wlp \<Rightarrow>
          Inr \<lparr>log_priors = priors, vocabulary = unique_words cleaned,
               words_in_spam = spam_total fc, words_in_ham = ham_total fc,
               word_log_prob = wlp, key = last (map fst (word_frequency fc)),
               alpha = 1\<rparr>)))"

subsection \<open>The spam notebook: \<^verbatim>\<open>classify\<close>\<close>

text \<open>
  The inner loop of \<^verbatim>\<open>classify\<close> for one class. A word of the vocabulary adds
  its stored logarithm. Any other word adds \<^verbatim>\<open>prob\<close> itself, computed from the
  module's \<^verbatim>\<open>key\<close>; the division is of Python integers and raises
  \<^verbatim>\<open>ZeroDivisionError\<close> when the denominator is 0.
  Each \<^verbatim>\<open>log_prob += ...\<close> is an addition of doubles in the program and of reals
  here: the order of the additions is the program's, their rounding is not
  modelled.
\<close>

fun score_words :: "globals \<Rightarrow> string \<Rightarrow> real \<Rightarrow> string list \<Rightarrow> py_error + real" where
  "score_words g class_label log_prob [] = Inr log_prob"
| "score_words g class_label log_prob (word # ws) =
     (if word \<in> set (vocabulary g) then
        (case map_of (word_log_prob g) class_label of
           None \<Rightarrow> Inl KeyError
         | Some tbl \<Rightarrow>
             (case tbl word of
                None \<Rightarrow> Inl KeyError
              | Some p \<Rightarrow> score_words g class_label (log_prob + p) ws))
      else
        (let N_words = (if key g = ''spam'' then words_in_spam g else words_in_ham g) in
         if N_words + alpha g * length (vocabulary g) = 0 then Inl ZeroDivisionError
         else
           let prob = (1 + real (alpha g)) / (real N_words + real (alpha g) * real (length (vocabulary g)))
           in score_words g class_label (log_prob + prob) ws))"

text \<open>The outer loop, over \<^verbatim>\<open>log_priors.keys()\<close>, filling \<^verbatim>\<open>class_probabilities\<close>.\<close>

fun class_scores :: "globals \<Rightarrow> string list \<Rightarrow> (string, real) dict \<Rightarrow> py_error + (string, real) dict" where
  "class_scores g ws [] = Inr []"
| "class_scores g ws ((class_label, prior) # d) =
     (case score_words g class_label prior ws of
        Inl e \<Rightarrow> Inl e
      | Inr log_prob \<Rightarrow>
          (case class_scores g ws d of
             Inl e \<Rightarrow> Inl e
           | Inr rest \<Rightarrow> Inr ((class_label, log_prob) # rest)))"

definition classify :: "globals \<Rightarrow> string \<Rightarrow> py_error + string" where
  "classify g message =
     (case class_scores g (clean_message message) (log_priors g) of
        Inl e \<Rightarrow> Inl e
      | Inr class_probabilities \<Rightarrow> py_max class_probabilities)"

subsection \<open>The census notebook: \<^verbatim>\<open>NaiveBayesClassifier.train\<close>\<close>

text \<open>
  A \<^verbatim>\<open>DataFrame\<close> of discrete values: its column names, and its rows, each giving
  the value of every column. Only columns named in \<open>columns\<close> are ever read from a
  row, the target column after a check that it is one of them.
\<close>

record dataframe =
  columns :: "string list"
  rows :: "(string \<Rightarrow> string) list"

text \<open>The fields of a trained \<^verbatim>\<open>NaiveBayesClassifier\<close>.\<close>

record classifier =
  self_alpha :: real
  self_log_priors :: "(string, real) dict"
  self_class_conditional_probs :: "string \<rightharpoonup> (string \<rightharpoonup> (string \<rightharpoonup> real))"
  self_features :: "string list"

text \<open>
  The first loop of \<^verbatim>\<open>train\<close>: a label already in \<^verbatim>\<open>class_frequencies\<close> is
  incremented in place, a new one is appended with count 1.
\<close>

fun count_labels :: "(string, nat) dict \<Rightarrow> string list \<Rightarrow> (string, nat) dict" where
  "count_labels cf [] = cf"
| "count_labels cf (class_label # ls) =
     count_labels
       (if class_label \<in> fst ` set cf
        then map (\<lambda>(k, c). if k = class_label then (k, c + 1) else (k, c)) cf
        else cf @ [(class_label, 1)]) ls"

definition class_frequencies :: "dataframe \<Rightarrow> string \<Rightarrow> (string, nat) dict" where
  "class_frequencies data target_class =
     count_labels [] (map (\<lambda>r. r target_class) (rows data))"

text \<open>\<^verbatim>\<open>data[feature].unique()\<close>: the distinct values, in order of first appearance.\<close>

definition first_occurrences :: "'a list \<Rightarrow> 'a list" where
  "first_occurrences xs = rev (remdups (rev xs))"

definition unique :: "dataframe \<Rightarrow> string \<Rightarrow> string list" where
  "unique data feature = first_occurrences (map (\<lambda>r. r feature) (rows data))"

text \<open>
  \<^verbatim>\<open>len(data[(data[target_class] == class_value) & (data[feature] == feature_value)])\<close>.
\<close>

definition N_k_vj :: "dataframe \<Rightarrow> string \<Rightarrow> string \<Rightarrow> string \<Rightarrow> string \<Rightarrow> nat" where
  "N_k_vj data target_class class_value feature feature_value =
     length (filter (\<lambda>r. r target_class = class_value \<and> r feature = feature_value) (rows data))"

definition total_count :: "dataframe \<Rightarrow> string \<Rightarrow> string \<Rightarrow> string \<Rightarrow> nat" where
  "total_count data target_class class_value feature =
     sum_list (map (N_k_vj data target_class class_value feature) (unique data feature))"

definition theta_k_j_v :: "real \<Rightarrow> dataframe \<Rightarrow> string \<Rightarrow> string \<Rightarrow> string \<Rightarrow> string \<Rightarrow> real" where
  "theta_k_j_v a data target_class class_value feature feature_value =
     (real (N_k_vj data target_class class_value feature feature_value) + a) /
     (real (total_count data target_class class_value feature)
        + a * real (length (unique data feature)))"

text \<open>
  The table of one feature for one class, one entry per distinct value. The table is
  created inside the loop over the values, so a feature without values gets none.
\<close>

definition value_table :: "real \<Rightarrow> dataframe \<Rightarrow> string \<Rightarrow> string \<Rightarrow> string \<Rightarrow> (string \<rightharpoonup> real)" where
  "value_table a data target_class class_value feature =
     map_of (map (\<lambda>v. (v, ln (theta_k_j_v a data target_class class_value feature v)))
               (unique data feature))"

definition feature_table :: "real \<Rightarrow> dataframe \<Rightarrow> string \<Rightarrow> string \<Rightarrow> (string \<rightharpoonup> (string \<rightharpoonup> real))" where
  "feature_table a data target_class class_value =
     map_of (map (\<lambda>f. (f, value_table a data target_class class_value f))
               (filter (\<lambda>f. f \<noteq> target_class \<and> unique data f \<noteq> []) (columns data)))"

text \<open>
  \<^verbatim>\<open>train\<close>, with the smoothing parameter \<^verbatim>\<open>self.alpha\<close> as its first
  argument. Reading the target column of the first row raises \<^verbatim>\<open>KeyError\<close> when
  the table has no such column; a table without rows is never read.
\<close>

definition train :: "real \<Rightarrow> dataframe \<Rightarrow> string \<Rightarrow> py_error + classifier" where
  "train a data target_class =
     (if rows data \<noteq> [] \<and> target_class \<notin> set (columns data) then Inl KeyError
      else
        let training_instances = length (rows data);
            cf = class_frequencies data target_class
        in Inr \<lparr>self_alpha = a,
                self_log_priors =
                  map (\<lambda>(class_label, freq).
                         (class_label,
                          ln ((real freq + a) / (real training_instances + a * real (length cf)))))
                      cf,
                self_class_conditional_probs =
                  map_of (map (\<lambda>class_value. (class_value, feature_table a data target_class class_value))
                            (map fst cf)),
                self_features = filter (\<lambda>feature. feature \<noteq> target_class) (columns data)\<rparr>)"

subsection \<open>The census notebook: \<^verbatim>\<open>NaiveBayesClassifier.predict\<close>\<close>

text \<open>
  \<^verbatim>\<open>new_instance\<close> is a dictionary from feature names to values;
  \<^verbatim>\<open>new_instance.get(feature)\<close> is \<^verbatim>\<open>None\<close> for a missing name, and
  \<^verbatim>\<open>None\<close> is the key of no table. Each of the three subscripts raises
  \<^verbatim>\<open>KeyError\<close> on a missing key.
\<close>

fun add_features :: "classifier \<Rightarrow> string \<Rightarrow> (string \<rightharpoonup> string) \<Rightarrow> real \<Rightarrow> string list \<Rightarrow> py_error + real" where
  "add_features self class_label new_instance log_prob [] = Inr log_prob"
| "add_features self class_label new_instance log_prob (feature # fs) =
     (case self_class_conditional_probs self class_label of
        None \<Rightarrow> Inl KeyError
      | Some by_feature \<Rightarrow>
     (case by_feature feature of
        None \<Rightarrow> Inl KeyError
      | Some by_value \<Rightarrow>
     (case new_instance feature of
        None \<Rightarrow> Inl KeyError
      | Some feature_value \<Rightarrow>
     (case by_value feature_value of
        None \<Rightarrow> Inl KeyError
      | Some p \<Rightarrow> add_features self class_label new_instance (log_prob + p) fs))))"

fun class_probabilities :: "classifier \<Rightarrow> (string \<rightharpoonup> string) \<Rightarrow> (string, real) dict
    \<Rightarrow> py_error + (string, real) dict" where
  "class_probabilities self new_instance [] = Inr []"
| "class_probabilities self new_instance ((class_label, prior) # d) =
     (case add_features self class_label new_instance prior (self_features self) of
        Inl e \<Rightarrow> Inl e
      | Inr log_prob \<Rightarrow>
          (case class_probabilities self new_instance d of
             Inl e \<Rightarrow> Inl e
           | Inr rest \<Rightarrow> Inr ((class_label, log_prob) # rest)))"

definition predict :: "classifier \<Rightarrow> (string \<rightharpoonup> string) \<Rightarrow> py_error + string" where
  "predict self new_instance =
     (case class_probabilities self new_instance (self_log_priors self) of
        Inl e \<Rightarrow> Inl e
      | Inr probs \<Rightarrow> py_max probs)"

section \<open>Quantities the properties are stated with\<close>

subsection \<open>The spam notebook\<close>

text \<open>
  The counts of the smoothing formula, written directly over the cleaned training
  messages: how often a word occurs in the messages of a class, and how many words
  those messages hold. The counting loops are proved to compute them.
\<close>

definition occurrences :: "string \<Rightarrow> (string \<times> string list) list \<Rightarrow> string \<Rightarrow> nat" where
  "occurrences label cleaned w = count_list (concat (messages_of label cleaned)) w"

definition class_total :: "string \<Rightarrow> (string \<times> string list) list \<Rightarrow> nat" where
  "class_total label cleaned = length (concat (messages_of label cleaned))"

text \<open>The table of one class that the formula describes, with \<open>\<alpha> = 1\<close>.\<close>

definition smoothed_table :: "string \<Rightarrow> (string \<times> string list) list \<Rightarrow> (string \<rightharpoonup> real)" where
  "smoothed_table label cleaned =
     (\<lambda>w. if w \<in> set (unique_words cleaned)
          then Some (ln ((real (occurrences label cleaned w) + 1) /
                         (real (class_total label cleaned) + 1 * real (length (unique_words cleaned)))))
          else None)"

text \<open>
  What \<^verbatim>\<open>classify\<close> adds for a word outside the vocabulary: the value of
  \<^verbatim>\<open>prob\<close> in the \<^verbatim>\<open>else\<close> branch. It mentions no class label.
\<close>

definition oov_prob :: "globals \<Rightarrow> real" where
  "oov_prob g =
     (1 + real (alpha g)) /
     (real (if key g = ''spam'' then words_in_spam g else words_in_ham g)
        + real (alpha g) * real (length (vocabulary g)))"

definition word_score :: "globals \<Rightarrow> (string \<times> string list) list \<Rightarrow> string \<Rightarrow> string \<Rightarrow> real" where
  "word_score g cleaned k w =
     (if w \<in> set (vocabulary g) then the (smoothed_table k cleaned w) else oov_prob g)"

text \<open>The words of a message that are in the vocabulary, in order, and the others.\<close>

definition in_vocabulary :: "globals \<Rightarrow> string list \<Rightarrow> string list" where
  "in_vocabulary g ws = filter (\<lambda>w. w \<in> set (vocabulary g)) ws"

definition out_of_vocabulary :: "globals \<Rightarrow> string list \<Rightarrow> string list" where
  "out_of_vocabulary g ws = filter (\<lambda>w. w \<notin> set (vocabulary g)) ws"

text \<open>
  The entry of \<^verbatim>\<open>class_probabilities\<close> for one class, as \<^verbatim>\<open>classify\<close> has it
  before \<^verbatim>\<open>max\<close>; and the training cell followed by a query on the variables it
  leaves.
\<close>

definition class_probability :: "globals \<Rightarrow> string \<Rightarrow> string \<Rightarrow> py_error + real" where
  "class_probability g class_label message =
     (case class_scores g (clean_message message) (log_priors g) of
        Inl e \<Rightarrow> Inl e
      | Inr probs \<Rightarrow> getitem (map_of probs) class_label)"

definition run_notebook :: "set_order \<Rightarrow> row list \<Rightarrow> (globals \<Rightarrow> py_error + 'a) \<Rightarrow> py_error + 'a" where
  "run_notebook ord shuffled_data query =
     (case training_cell ord shuffled_data of Inl e \<Rightarrow> Inl e | Inr g \<Rightarrow> query g)"

subsection \<open>The census notebook\<close>

text \<open>
  The number of rows of a class, and the set of values a column takes in the table.
\<close>

definition class_count :: "dataframe \<Rightarrow> string \<Rightarrow> string \<Rightarrow> nat" where
  "class_count data target_class class_value =
     length (filter (\<lambda>r. r target_class = class_value) (rows data))"

definition domain_of :: "dataframe \<Rightarrow> string \<Rightarrow> string set" where
  "domain_of data feature = (\<lambda>r. r feature) ` set (rows data)"

text \<open>\<^verbatim>\<open>train\<close> followed by \<^verbatim>\<open>predict\<close>, and the scores \<^verbatim>\<open>predict\<close> compares.\<close>

definition fit_predict :: "real \<Rightarrow> dataframe \<Rightarrow> string \<Rightarrow> (string \<rightharpoonup> string) \<Rightarrow> py_error + string" where
  "fit_predict a data target_class new_instance =
     (case train a data target_class of Inl e \<Rightarrow> Inl e | Inr self \<Rightarrow> predict self new_instance)"

definition fit_scores :: "real \<Rightarrow> dataframe \<Rightarrow> string \<Rightarrow> (string \<rightharpoonup> string)
    \<Rightarrow> py_error + (string, real) dict" where
  "fit_scores a data target_class new_instance =
     (case train a data target_class of
        Inl e \<Rightarrow> Inl e
      | Inr self \<Rightarrow> class_probabilities self new_instance (self_log_priors self))"

subsection \<open>The first maximal entry of a dictionary\<close>

text \<open>The first entry, in insertion order, whose value no other value exceeds.\<close>

definition first_maximal :: "('k, real) dict \<Rightarrow> ('k \<times> real) option" where
  "first_maximal d = find (\<lambda>kv. \<forall>kv' \<in> set d. snd kv' \<le> snd kv) d"

subsection \<open>Example data\<close>

text \<open>
  The scenario of the specification: three training messages. The notebook trains on
  the first \<open>int(len * 0.8)\<close> rows, so the three are the training split of a data set
  of four rows; \<open>scenario_data\<close> has a fourth row that is held out.
\<close>

definition scenario_training :: "row list" where
  "scenario_training =
     [(''spam'', ''win money''), (''ham'', ''hello friend''), (''spam'', ''win prize'')]"

definition scenario_data :: "row list" where
  "scenario_data =
     [(''spam'', ''win money''), (''ham'', ''hello friend''), (''spam'', ''win prize''),
      (''ham'', ''see you'')]"

definition scenario_cleaned :: "(string \<times> string list) list" where
  "scenario_cleaned =
     [(''spam'', [''win'', ''money'']), (''ham'', [''hello'', ''friend'']),
      (''spam'', [''win'', ''prize''])]"

text \<open>
  Five rows of which the first four are the training split, and two rows whose texts
  hold no letter, so that training finds no word.
\<close>

definition leak_data :: "row list" where
  "leak_data =
     [(''ham'', ''hello friend''), (''spam'', ''win money''), (''ham'', ''see you''),
      (''ham'', ''good day''), (''spam'', ''win prize'')]"

definition digits_data :: "row list" where
  "digits_data = [(''ham'', ''2024''), (''spam'', ''0800 123 456'')]"

text \<open>Small census tables with the columns \<open>sex\<close> and \<open>job\<close>.\<close>

definition person :: "string \<Rightarrow> string \<Rightarrow> (string \<Rightarrow> string)" where
  "person sex job = (\<lambda>column. if column = ''sex'' then sex else if column = ''job'' then job else [])"

definition census_male_first :: dataframe where
  "census_male_first =
     \<lparr>columns = [''sex'', ''job''],
      rows = [person ''Male'' ''Clerk'', person ''Female'' ''Clerk'']\<rparr>"

definition census_female_first :: dataframe where
  "census_female_first =
     \<lparr>columns = [''sex'', ''job''],
      rows = [person ''Female'' ''Clerk'', person ''Male'' ''Clerk'']\<rparr>"

definition census_sample :: dataframe where
  "census_sample =
     \<lparr>columns = [''job'', ''sex''],
      rows = [person ''Male'' ''Clerk'', person ''Female'' ''Nurse'',
              person ''Male'' ''Nurse'', person ''Female'' ''Nurse'']\<rparr>"

section \<open>Lemmas: what the spam notebook computes\<close>

lemma zero_counts_apply: "zero_counts vocab w = (if w \<in> set vocab then Some 0 else None)"
  by (induction vocab) (auto simp: zero_counts_def)

lemma count_text_result:
  "set ws \<subseteq> dom freq \<Longrightarrow>
   count_text (freq, n) ws =
     Inr (\<lambda>w. map_option (\<lambda>c. c + count_list ws w) (freq w), n + length ws)"
proof (induction ws arbitrary: freq n)
  case Nil
  show ?case by (simp add: option.map_ident)
next
  case (Cons word ws)
  then obtain c where c: "freq word = Some c" by auto
  have "set ws \<subseteq> dom (freq(word \<mapsto> c + 1))" using Cons.prems by auto
  from Cons.IH [OF this, of "n + 1"]
  have "count_text (freq(word \<mapsto> c + 1), n + 1) ws =
          Inr (\<lambda>w. map_option (\<lambda>c. c + count_list ws w) ((freq(word \<mapsto> c + 1)) w),
               n + 1 + length ws)" .
  moreover have "(\<lambda>w. map_option (\<lambda>c. c + count_list ws w) ((freq(word \<mapsto> c + 1)) w)) =
          (\<lambda>w. map_option (\<lambda>c. c + count_list (word # ws) w) (freq w))"
    using c by (auto simp: fun_eq_iff)
  ultimately show ?case using c by simp
qed

lemma count_messages_result:
  "set (concat texts) \<subseteq> dom freq \<Longrightarrow>
   count_messages (freq, n) texts =
     Inr (\<lambda>w. map_option (\<lambda>c. c + count_list (concat texts) w) (freq w), n + length (concat texts))"
proof (induction texts arbitrary: freq n)
  case Nil
  show ?case by (simp add: option.map_ident)
next
  case (Cons ws texts)
  have t: "set ws \<subseteq> dom freq" using Cons.prems by auto
  let ?f = "\<lambda>w. map_option (\<lambda>c. c + count_list ws w) (freq w)"
  have "set (concat texts) \<subseteq> dom ?f" using Cons.prems by (auto simp: dom_def)
  from Cons.IH [OF this, of "n + length ws"] show ?case
    by (simp add: count_text_result [OF t] fun_eq_iff option.map_comp comp_def add.assoc)
qed


lemma fill_log_prob_result:
  "set ws \<subseteq> dom freq \<Longrightarrow>
   fill_log_prob freq N a V tbl ws =
     Inr (\<lambda>w. if w \<in> set ws
              then Some (ln ((real (the (freq w)) + real a) / (real N + real a * real V)))
              else tbl w)"
proof (induction ws arbitrary: tbl)
  case Nil
  show ?case by simp
next
  case (Cons word ws)
  then obtain c where c: "freq word = Some c" by auto
  have "set ws \<subseteq> dom freq" using Cons.prems by simp
  from Cons.IH [OF this] c show ?case
    by (auto simp: fun_eq_iff Let_def)
qed


lemma messages_in_vocabulary:
  "set (concat (messages_of label cleaned)) \<subseteq> dom (zero_counts (unique_words cleaned))"
  by (auto simp: messages_of_def unique_words_def zero_counts_apply dom_def)

lemma count_messages_zero:
  "count_messages (zero_counts (unique_words cleaned), 0) (messages_of label cleaned) =
     Inr (\<lambda>w. if w \<in> set (unique_words cleaned) then Some (occurrences label cleaned w) else None,
          class_total label cleaned)"
  by (simp add: count_messages_result [OF messages_in_vocabulary] zero_counts_apply
      occurrences_def class_total_def fun_eq_iff)

lemma count_words_result:
  "count_words ord cleaned =
     Inr \<lparr>word_frequency =
            map (\<lambda>k. (k, \<lambda>w. if w \<in> set (unique_words cleaned)
                            then Some (occurrences k cleaned w) else None))
                (set_iteration ord),
          spam_total = class_total ''spam'' cleaned,
          ham_total = class_total ''ham'' cleaned\<rparr>"
  by (cases ord) (simp_all add: count_words_def count_messages_zero Let_def)

lemma fill_classes_result:
  "\<forall>kf \<in> set d. set vocab \<subseteq> dom (snd kf) \<Longrightarrow>
   fill_classes fc a vocab d =
     Inr (map (\<lambda>(k, f). (k, \<lambda>w. if w \<in> set vocab
               then Some (ln ((real (the (f w)) + real a) /
                     (real (if k = ''spam'' then spam_total fc else ham_total fc)
                        + real a * real (length vocab))))
               else None)) d)"
proof (induction d)
  case Nil
  show ?case by simp
next
  case (Cons kf d)
  obtain k f where kf: "kf = (k, f)" by (cases kf)
  have f: "set vocab \<subseteq> dom f" using Cons.prems kf by simp
  have "\<forall>kf \<in> set d. set vocab \<subseteq> dom (snd kf)" using Cons.prems by simp
  from Cons.IH [OF this] show ?case
    by (simp add: kf Let_def fill_log_prob_result [OF f])
qed

lemma training_cell_result:
  assumes "class_priors shuffled_data = Inr priors"
  shows "training_cell ord shuffled_data =
     Inr \<lparr>log_priors = priors,
          vocabulary = unique_words (cleaned_training_data shuffled_data),
          words_in_spam = class_total ''spam'' (cleaned_training_data shuffled_data),
          words_in_ham = class_total ''ham'' (cleaned_training_data shuffled_data),
          word_log_prob =
            map (\<lambda>k. (k, smoothed_table k (cleaned_training_data shuffled_data)))
                (set_iteration ord),
          key = last (set_iteration ord), alpha = 1\<rparr>"
proof -
  let ?c = "cleaned_training_data shuffled_data"
  let ?wf = "map (\<lambda>k. (k, \<lambda>w. if w \<in> set (unique_words ?c)
                            then Some (occurrences k ?c w) else None))
                (set_iteration ord)"
  let ?fc = "\<lparr>word_frequency = ?wf,
          spam_total = class_total ''spam'' ?c,
          ham_total = class_total ''ham'' ?c\<rparr>"
  have dom: "\<forall>kf \<in> set ?wf. set (unique_words ?c) \<subseteq> dom (snd kf)"
    by (auto simp: dom_def)
  have "fill_classes ?fc 1 (unique_words ?c) ?wf =
      Inr (map (\<lambda>k. (k, smoothed_table k ?c)) (set_iteration ord))"
    unfolding fill_classes_result [OF dom]
    by (cases ord) (simp_all add: smoothed_table_def fun_eq_iff)
  then show ?thesis
    using assms by (simp add: training_cell_def count_words_result Let_def comp_def)
qed


lemma training_cell_InrD:
  assumes "training_cell ord shuffled_data = Inr g"
  shows "class_priors shuffled_data = Inr (log_priors g)"
    and "vocabulary g = unique_words (cleaned_training_data shuffled_data)"
    and "words_in_spam g = class_total ''spam'' (cleaned_training_data shuffled_data)"
    and "words_in_ham g = class_total ''ham'' (cleaned_training_data shuffled_data)"
    and "word_log_prob g =
            map (\<lambda>k. (k, smoothed_table k (cleaned_training_data shuffled_data)))
                (set_iteration ord)"
    and "key g = last (set_iteration ord)"
    and "alpha g = 1"
proof -
  obtain priors where p: "class_priors shuffled_data = Inr priors"
    using assms by (cases "class_priors shuffled_data") (simp_all add: training_cell_def Let_def)
  note r = training_cell_result [OF p, of ord]
  from assms r show "class_priors shuffled_data = Inr (log_priors g)"
    and "vocabulary g = unique_words (cleaned_training_data shuffled_data)"
    and "words_in_spam g = class_total ''spam'' (cleaned_training_data shuffled_data)"
    and "words_in_ham g = class_total ''ham'' (cleaned_training_data shuffled_data)"
    and "word_log_prob g =
            map (\<lambda>k. (k, smoothed_table k (cleaned_training_data shuffled_data)))
                (set_iteration ord)"
    and "key g = last (set_iteration ord)"
    and "alpha g = 1"
    using p by auto
qed

lemma class_priors_shape:
  assumes "class_priors shuffled_data = Inr priors"
  shows "\<exists>a b. priors = [(''ham'', a), (''spam'', b)]"
  using assms by (auto simp: class_priors_def Let_def split: sum.splits)

lemma word_log_prob_lookup:
  assumes "training_cell ord shuffled_data = Inr g" and "k = ''ham'' \<or> k = ''spam''"
  shows "map_of (word_log_prob g) k = Some (smoothed_table k (cleaned_training_data shuffled_data))"
  using assms(2) by (cases ord) (auto simp: training_cell_InrD(5) [OF assms(1)])

lemma class_total_empty:
  "unique_words cleaned = [] \<Longrightarrow> class_total label cleaned = 0"
  by (auto simp: unique_words_def class_total_def messages_of_def)

lemma score_words_trained:
  assumes t: "training_cell ord shuffled_data = Inr g" and k: "k = ''ham'' \<or> k = ''spam''"
  shows "score_words g k lp ws =
     (if vocabulary g = [] \<and> ws \<noteq> [] then Inl ZeroDivisionError
      else Inr (lp + (\<Sum>w\<leftarrow>ws. if w \<in> set (vocabulary g)
                  then the (smoothed_table k (cleaned_training_data shuffled_data) w)
                  else oov_prob g)))"
proof (induction ws arbitrary: lp)
  case Nil
  show ?case by simp
next
  case (Cons w ws)
  note lk = word_log_prob_lookup [OF t k]
  show ?case
  proof (cases "w \<in> set (vocabulary g)")
    case True
    then have "smoothed_table k (cleaned_training_data shuffled_data) w \<noteq> None"
      by (simp add: smoothed_table_def training_cell_InrD(2) [OF t])
    then obtain p where p: "smoothed_table k (cleaned_training_data shuffled_data) w = Some p"
      by auto
    from True p lk show ?thesis
      by (auto simp: Cons.IH add.assoc)
  next
    case False
    show ?thesis
    proof (cases "vocabulary g = []")
      case True
      then have "words_in_spam g = 0" "words_in_ham g = 0"
        using training_cell_InrD(2,3,4) [OF t] by (simp_all add: class_total_empty)
      with True show ?thesis by simp
    next
      case nonempty: False
      then have "length (vocabulary g) \<noteq> 0" by simp
      with False nonempty show ?thesis
        by (simp add: training_cell_InrD(7) [OF t] Let_def Cons.IH oov_prob_def add.assoc)
    qed
  qed
qed


lemmas clean_simps = clean_training_text_def clean_message_def str_split_def is_letter_def
  lower_char_def

lemma scenario_cleaned_eq: "cleaned_training_data scenario_data = scenario_cleaned"
  by (simp add: scenario_data_def scenario_cleaned_def cleaned_training_data_def
      training_data_def split_index_def clean_simps)

lemma scenario_vocabulary:
  "unique_words scenario_cleaned = [''money'', ''hello'', ''friend'', ''win'', ''prize'']"
  by (simp add: scenario_cleaned_def unique_words_def)

lemma scenario_priors:
  "class_priors scenario_data = Inr [(''ham'', ln (1/2)), (''spam'', ln (1/2))]"
  by (simp add: scenario_data_def class_priors_def value_counts_def iloc_def Let_def)

lemma scenario_totals:
  "class_total ''spam'' scenario_cleaned = 4" "class_total ''ham'' scenario_cleaned = 2"
  by (simp_all add: scenario_cleaned_def class_total_def messages_of_def)

lemma scenario_occurrences:
  "occurrences ''spam'' scenario_cleaned ''win'' = 2"
  "occurrences ''spam'' scenario_cleaned ''prize'' = 1"
  "occurrences ''ham'' scenario_cleaned ''win'' = 0"
  "occurrences ''ham'' scenario_cleaned ''prize'' = 0"
  by (simp_all add: scenario_cleaned_def occurrences_def messages_of_def)

lemma class_scores_trained:
  assumes t: "training_cell ord shuffled_data = Inr g"
  shows "class_scores g ws (log_priors g) =
     (if vocabulary g = [] \<and> ws \<noteq> [] then Inl ZeroDivisionError
      else Inr (map (\<lambda>(k, prior).
                  (k, prior + (\<Sum>w\<leftarrow>ws. word_score g (cleaned_training_data shuffled_data) k w)))
                (log_priors g)))"
proof -
  obtain a b where p: "log_priors g = [(''ham'', a), (''spam'', b)]"
    using class_priors_shape [OF training_cell_InrD(1) [OF t]] by blast
  show ?thesis
    unfolding p word_score_def
    by (simp add: score_words_trained [OF t])
qed

lemma scenario_globals:
  assumes "training_cell ord scenario_data = Inr g"
  shows "log_priors g = [(''ham'', ln (1/2)), (''spam'', ln (1/2))]"
    and "vocabulary g = [''money'', ''hello'', ''friend'', ''win'', ''prize'']"
    and "words_in_spam g = 4" and "words_in_ham g = 2" and "alpha g = 1"
    and "key g = last (set_iteration ord)"
  using training_cell_InrD [OF assms]
  by (simp_all add: scenario_priors scenario_cleaned_eq scenario_vocabulary scenario_totals)

lemma scenario_trains: "\<exists>g. training_cell ord scenario_data = Inr g"
  by (simp add: training_cell_result [OF scenario_priors])

lemma word_score_split:
  "(\<Sum>w\<leftarrow>ws. word_score g cleaned k w) =
     (\<Sum>w\<leftarrow>in_vocabulary g ws. the (smoothed_table k cleaned w))
       + real (length (out_of_vocabulary g ws)) * oov_prob g"
  by (induction ws) (auto simp: word_score_def in_vocabulary_def out_of_vocabulary_def algebra_simps)

lemma classify_trained:
  assumes t: "training_cell ord shuffled_data = Inr g" and ne: "vocabulary g \<noteq> []"
    and p: "log_priors g = [(''ham'', a), (''spam'', b)]"
  shows "classify g message =
     Inr (if a + (\<Sum>w\<leftarrow>in_vocabulary g (clean_message message).
                    the (smoothed_table ''ham'' (cleaned_training_data shuffled_data) w))
             < b + (\<Sum>w\<leftarrow>in_vocabulary g (clean_message message).
                    the (smoothed_table ''spam'' (cleaned_training_data shuffled_data) w))
          then ''spam'' else ''ham'')"
  unfolding classify_def class_scores_trained [OF t]
  by (simp add: ne p word_score_split)

lemma digits_globals:
  assumes "training_cell ord digits_data = Inr g"
  shows "log_priors g = [(''ham'', ln (1/2)), (''spam'', ln (1/2))]"
    and "vocabulary g = []"
  using training_cell_InrD [OF assms]
  by (simp_all add: digits_data_def class_priors_def value_counts_def iloc_def Let_def
      cleaned_training_data_def training_data_def split_index_def clean_simps unique_words_def)

lemma digits_trains: "\<exists>g. training_cell ord digits_data = Inr g"
proof -
  have "class_priors digits_data = Inr [(''ham'', ln (1/2)), (''spam'', ln (1/2))]"
    by (simp add: digits_data_def class_priors_def value_counts_def iloc_def Let_def)
  from training_cell_result [OF this] show ?thesis by simp
qed

lemma heldout_cleaned:
  "cleaned_training_data (scenario_training @ [held_out]) = scenario_cleaned"
  by (simp add: scenario_training_def scenario_cleaned_def cleaned_training_data_def
      training_data_def split_index_def clean_simps)

lemma heldout_priors:
  "class_priors (scenario_training @ [(l, t)]) =
     Inr (if l = ''spam'' then [(''ham'', ln (4/6)), (''spam'', ln (2/6))]
          else if l = ''ham'' then [(''ham'', ln (3/6)), (''spam'', ln (3/6))]
          else [(''ham'', ln (3/6)), (''spam'', ln (2/6))])"
  by (simp add: scenario_training_def class_priors_def value_counts_def iloc_def Let_def)

lemma smoothed_scenario:
  "smoothed_table ''spam'' scenario_cleaned ''win'' = Some (ln ((2 + 1) / (4 + 1 * 5)))"
  "smoothed_table ''spam'' scenario_cleaned ''prize'' = Some (ln ((1 + 1) / (4 + 1 * 5)))"
  "smoothed_table ''ham'' scenario_cleaned ''win'' = Some (ln ((0 + 1) / (2 + 1 * 5)))"
  "smoothed_table ''ham'' scenario_cleaned ''prize'' = Some (ln ((0 + 1) / (2 + 1 * 5)))"
  by (simp_all add: smoothed_table_def scenario_vocabulary scenario_totals scenario_occurrences)

lemma ln_compare:
  fixes a b c x y z :: real
  assumes "0 < a" "0 < b" "0 < c" "0 < x" "0 < y" "0 < z" "a * b * c < x * y * z"
  shows "ln a + (ln b + ln c) < ln x + (ln y + ln z)"
proof -
  have "ln (a * b * c) < ln (x * y * z)"
    using assms by (subst ln_less_cancel_iff) simp_all
  then show ?thesis using assms by (simp add: ln_mult)
qed

lemma heldout_classify:
  assumes t: "training_cell ord (scenario_training @ [(l, tx)]) = Inr g"
  shows "classify g ''win prize'' = Inr ''spam''"
proof -
  note d = training_cell_InrD [OF t, unfolded heldout_cleaned heldout_priors]
  have v: "vocabulary g = [''money'', ''hello'', ''friend'', ''win'', ''prize'']"
    by (simp add: d(2) scenario_vocabulary)
  then have ne: "vocabulary g \<noteq> []" by simp
  have iv: "in_vocabulary g (clean_message ''win prize'') = [''win'', ''prize'']"
    by (simp add: in_vocabulary_def v clean_simps)
  have c1: "ln (4/6 :: real) + (ln (1/7) + ln (1/7)) < ln (2/6) + (ln (3/9) + ln (2/9))"
    by (rule ln_compare) simp_all
  have c2: "ln (3/6 :: real) + (ln (1/7) + ln (1/7)) < ln (3/6) + (ln (3/9) + ln (2/9))"
    by (rule ln_compare) simp_all
  have c3: "ln (3/6 :: real) + (ln (1/7) + ln (1/7)) < ln (2/6) + (ln (3/9) + ln (2/9))"
    by (rule ln_compare) simp_all
  consider "l = ''spam''" | "l = ''ham''" | "l \<noteq> ''spam''" "l \<noteq> ''ham''" by blast
  then show ?thesis
  proof cases
    case 1
    then have p: "log_priors g = [(''ham'', ln (4/6)), (''spam'', ln (2/6))]"
      using d(1) by simp
    show ?thesis
      unfolding classify_trained [OF t ne p] iv heldout_cleaned using c1
      by (simp only: smoothed_scenario list.map sum_list.Cons sum_list.Nil option.sel) simp
  next
    case 2
    then have p: "log_priors g = [(''ham'', ln (3/6)), (''spam'', ln (3/6))]"
      using d(1) by simp
    show ?thesis
      unfolding classify_trained [OF t ne p] iv heldout_cleaned using c2
      by (simp only: smoothed_scenario list.map sum_list.Cons sum_list.Nil option.sel) simp
  next
    case 3
    then have p: "log_priors g = [(''ham'', ln (3/6)), (''spam'', ln (2/6))]"
      using d(1) by simp
    show ?thesis
      unfolding classify_trained [OF t ne p] iv heldout_cleaned using c3
      by (simp only: smoothed_scenario list.map sum_list.Cons sum_list.Nil option.sel) simp
  qed
qed

lemma distinct_unique_words: "distinct (unique_words cleaned)"
  by (simp add: unique_words_def)

lemma trained_word_log_prob:
  assumes t: "training_cell ord shuffled_data = Inr g"
    and k: "k = ''ham'' \<or> k = ''spam''" and w: "w \<in> set (vocabulary g)"
  shows "\<exists>tbl. map_of (word_log_prob g) k = Some tbl \<and>
           tbl w = Some (ln ((real (occurrences k (cleaned_training_data shuffled_data) w) + 1) /
                             (real (class_total k (cleaned_training_data shuffled_data))
                                + 1 * real (card (set (vocabulary g))))))"
proof -
  have "card (set (vocabulary g)) = length (unique_words (cleaned_training_data shuffled_data))"
    by (simp add: training_cell_InrD(2) [OF t] distinct_card distinct_unique_words)
  then show ?thesis
    using w by (simp add: word_log_prob_lookup [OF t k] smoothed_table_def training_cell_InrD(2) [OF t])
qed

lemma sum_list_sort: "sum_list (sort xs) = sum_list (xs :: nat list)"
proof -
  have "sum_mset (mset (sort xs)) = sum_mset (mset xs)" by simp
  then show ?thesis unfolding sum_mset_sum_list .
qed

lemma sum_list_value_counts: "sum_list (value_counts labels) = length labels"
proof -
  have "sum_list (map (count_list labels) (remdups labels)) = sum (count_list labels) (set labels)"
    by (simp add: sum_list_distinct_conv_sum_set)
  also have "\<dots> = length labels" by (rule sum_count_set) simp_all
  finally show ?thesis by (simp add: value_counts_def sum_list_sort)
qed

lemma length_value_counts: "length (value_counts labels) = card (set labels)"
  by (simp add: value_counts_def length_remdups_card_conv)

lemma class_priors_sum:
  assumes p: "class_priors shuffled_data = Inr priors"
    and two: "card (set (map fst shuffled_data)) \<le> 2"
  shows "(\<Sum>(k, lp)\<leftarrow>priors. exp lp) = 1"
proof -
  let ?vc = "value_counts (map fst shuffled_data)"
  have "1 < length ?vc"
    using p by (auto simp: class_priors_def iloc_def split: if_splits)
  moreover have "length ?vc \<le> 2" using two by (simp only: length_value_counts)
  ultimately have "length ?vc = 2" by simp
  then obtain c0 c1 where vc: "?vc = [c0, c1]"
    by (cases ?vc; simp) (metis length_0_conv length_Suc_conv Suc_length_conv)
  have "c0 + c1 = length shuffled_data"
    using sum_list_value_counts [of "map fst shuffled_data"] by (simp add: vc)
  then have n: "real (length shuffled_data) = real c0 + real c1" by simp
  have priors: "priors = [(''ham'', ln ((real c0 + 1) / (real (length shuffled_data) + 2))),
                          (''spam'', ln ((real c1 + 1) / (real (length shuffled_data) + 2)))]"
    using p by (simp add: class_priors_def iloc_def vc Let_def)
  have pos: "0 < (real c0 + 1) / (real c0 + real c1 + 2)" "0 < (real c1 + 1) / (real c0 + real c1 + 2)"
    by (simp_all add: add_pos_nonneg)
  have "(real c0 + 1) / (real c0 + real c1 + 2) + (real c1 + 1) / (real c0 + real c1 + 2) = 1"
    by (simp add: add_divide_distrib [symmetric] add_pos_nonneg)
  then show ?thesis
    unfolding priors n using pos by (simp add: exp_ln del: ln_div)
qed

section \<open>Lemmas: what the census notebook computes, and the sums of the stored tables\<close>

lemma remdups_snoc: "remdups (ys @ [x]) = remdups (filter (\<lambda>y. y \<noteq> x) ys) @ [x]"
  by (induction ys) auto

lemma first_occurrences_Cons:
  "first_occurrences (x # xs) = x # first_occurrences (filter (\<lambda>y. y \<noteq> x) xs)"
  by (simp add: first_occurrences_def remdups_snoc rev_filter)

lemma count_list_distinct: "distinct vs \<Longrightarrow> x \<in> set vs \<Longrightarrow> count_list vs x = 1"
  by (induction vs) auto

lemma set_first_occurrences [simp]: "set (first_occurrences xs) = set xs"
  by (simp add: first_occurrences_def)

lemma distinct_first_occurrences [simp]: "distinct (first_occurrences xs)"
  by (simp add: first_occurrences_def)

lemma length_first_occurrences: "length (first_occurrences xs) = card (set xs)"
  by (simp add: first_occurrences_def length_remdups_card_conv)

lemma count_labels_result:
  "count_labels cf ls =
     map (\<lambda>(k, c). (k, c + count_list ls k)) cf @
     map (\<lambda>k. (k, count_list ls k)) (first_occurrences (filter (\<lambda>l. l \<notin> fst ` set cf) ls))"
proof (induction ls arbitrary: cf)
  case Nil
  show ?case by (simp add: first_occurrences_def)
next
  case (Cons l ls)
  show ?case
  proof (cases "l \<in> fst ` set cf")
    case True
    have keys: "fst ` (\<lambda>(k, c). if k = l then (k, c + 1) else (k, c)) ` set cf = fst ` set cf"
      by (force simp: image_iff split: prod.splits if_splits)
    have tail: "map (\<lambda>k. (k, count_list (l # ls) k)) (first_occurrences (filter (\<lambda>l. l \<notin> fst ` set cf) ls))
        = map (\<lambda>k. (k, count_list ls k)) (first_occurrences (filter (\<lambda>l. l \<notin> fst ` set cf) ls))"
      using True by (auto)
    show ?thesis
      using True by (simp add: Cons.IH keys tail del: count_list.simps) (auto)
  next
    case False
    have f: "filter (\<lambda>y. y \<noteq> l) (filter (\<lambda>l. l \<notin> fst ` set cf) ls)
         = filter (\<lambda>x. x \<noteq> l \<and> x \<notin> fst ` set cf) ls"
      by (induction ls) auto
    have head: "map (\<lambda>(k, c). (k, c + count_list (l # ls) k)) cf = map (\<lambda>(k, c). (k, c + count_list ls k)) cf"
      using False by (auto simp: image_iff)
    have tail: "map (\<lambda>k. (k, count_list (l # ls) k)) (first_occurrences (filter (\<lambda>x. x \<noteq> l \<and> x \<notin> fst ` set cf) ls))
        = map (\<lambda>k. (k, count_list ls k)) (first_occurrences (filter (\<lambda>x. x \<noteq> l \<and> x \<notin> fst ` set cf) ls))"
      by auto
    show ?thesis
      using False
      by (simp add: Cons.IH first_occurrences_Cons f head del: count_list.simps) (auto simp: conj_commute)
  qed
qed

lemma class_frequencies_eq:
  "class_frequencies data target_class =
     map (\<lambda>k. (k, count_list (map (\<lambda>r. r target_class) (rows data)) k)) (unique data target_class)"
  by (simp add: class_frequencies_def count_labels_result unique_def)

lemma sum_list_indicator:
  "(\<Sum>v\<leftarrow>vs. if x = v then 1 else 0) = count_list vs x"
  by (induction vs) auto

lemma sum_list_filter_by_value:
  assumes "distinct vs"
  shows "(\<forall>r \<in> set rs. g r \<in> set vs) \<Longrightarrow>
     (\<Sum>v\<leftarrow>vs. length (filter (\<lambda>r. P r \<and> g r = v) rs)) = length (filter P rs)"
proof (induction rs)
  case Nil
  show ?case by simp
next
  case (Cons r rs)
  have "(\<Sum>v\<leftarrow>vs. length (filter (\<lambda>r. P r \<and> g r = v) (r # rs)))
      = (\<Sum>v\<leftarrow>vs. (if P r \<and> g r = v then 1 else 0) + length (filter (\<lambda>r. P r \<and> g r = v) rs))"
    by (intro arg_cong [where f = sum_list] map_cong) auto
  also have "\<dots> = (\<Sum>v\<leftarrow>vs. if P r \<and> g r = v then 1 else 0) + length (filter P rs)"
    using Cons by (simp add: sum_list_addf)
  also have "(\<Sum>v\<leftarrow>vs. if P r \<and> g r = v then 1 else 0) = (if P r then count_list vs (g r) else 0)"
    by (cases "P r") (simp_all add: sum_list_indicator)
  also have "count_list vs (g r) = 1"
    using assms Cons.prems by (simp add: count_list_distinct)
  finally show ?case by simp
qed

lemma total_count_eq:
  "total_count data target_class class_value feature =
     length (filter (\<lambda>r. r target_class = class_value) (rows data))"
  unfolding total_count_def N_k_vj_def
  by (rule sum_list_filter_by_value) (auto simp: unique_def)

lemma map_of_keyed:
  "map_of (map (\<lambda>k. (k, f k)) ks) x = (if x \<in> set ks then Some (f x) else None)"
  by (induction ks) auto

lemma set_unique: "set (unique data feature) = domain_of data feature"
  by (simp add: unique_def domain_of_def)

lemma length_unique: "length (unique data feature) = card (domain_of data feature)"
  by (simp add: unique_def domain_of_def length_first_occurrences)

lemma unique_Nil_iff: "unique data feature = [] \<longleftrightarrow> rows data = []"
  by (metis set_unique domain_of_def image_is_empty set_empty)

lemma count_list_labels:
  "count_list (map (\<lambda>r. r target_class) (rows data)) k = class_count data target_class k"
  by (induction "rows data" arbitrary: data) (auto simp: class_count_def count_list_eq_length_filter filter_map comp_def eq_commute)

lemma value_table_apply:
  "value_table a data target_class class_value feature v =
     (if v \<in> domain_of data feature
      then Some (ln ((real (N_k_vj data target_class class_value feature v) + a) /
                     (real (class_count data target_class class_value)
                        + a * real (card (domain_of data feature)))))
      else None)"
  by (simp add: value_table_def map_of_keyed set_unique theta_k_j_v_def total_count_eq
      length_unique class_count_def)

lemma feature_table_apply:
  "feature_table a data target_class class_value feature =
     (if feature \<in> set (columns data) \<and> feature \<noteq> target_class \<and> rows data \<noteq> []
      then Some (value_table a data target_class class_value feature) else None)"
  by (auto simp: feature_table_def map_of_keyed unique_Nil_iff)

lemma train_InrD:
  assumes "train a data target_class = Inr self"
  shows "self_alpha self = a"
    and "self_log_priors self =
           map (\<lambda>k. (k, ln ((real (class_count data target_class k) + a) /
                            (real (length (rows data))
                               + a * real (card (domain_of data target_class))))))
               (unique data target_class)"
    and "self_class_conditional_probs self class_value =
           (if class_value \<in> domain_of data target_class
            then Some (feature_table a data target_class class_value) else None)"
    and "self_features self = filter (\<lambda>feature. feature \<noteq> target_class) (columns data)"
    and "rows data = [] \<or> target_class \<in> set (columns data)"
  using assms
  by (auto simp: train_def Let_def class_frequencies_eq comp_def map_of_keyed set_unique
      length_unique count_list_labels split: if_splits)

lemma find_skip:
  "\<forall>x \<in> set pre. \<not> P x \<Longrightarrow> find P (pre @ rest) = find P rest"
  by (induction pre) auto

lemma max_loop_first_maximal:
  assumes "\<forall>x \<in> set pre. snd x < v" and "\<forall>x \<in> set mid. snd x \<le> v"
  shows "first_maximal (pre @ (k, v) # mid @ d) \<noteq> None \<and>
         max_loop (k, v) d = fst (the (first_maximal (pre @ (k, v) # mid @ d)))"
  using assms
proof (induction d arbitrary: k v pre mid)
  case Nil
  let ?L = "pre @ (k, v) # mid"
  let ?P = "\<lambda>kv. \<forall>kv' \<in> set ?L. snd kv' \<le> snd kv"
  have "\<forall>x \<in> set pre. \<not> ?P x" using Nil by force
  then have "find ?P ?L = find ?P ((k, v) # mid)" by (rule find_skip)
  moreover have "?P (k, v)" using Nil by force
  ultimately have "find ?P ?L = Some (k, v)" by simp
  then show ?case by (simp add: first_maximal_def)
next
  case (Cons kv' d)
  obtain k' v' where kv': "kv' = (k', v')" by (cases kv')
  show ?case
  proof (cases "v < v'")
    case True
    have 1: "\<forall>x \<in> set (pre @ (k, v) # mid). snd x < v'" using Cons.prems True by force
    have 2: "\<forall>x \<in> set []. snd x \<le> v'" by simp
    from Cons.IH [OF 1 2, of k'] True show ?thesis by (simp add: kv')
  next
    case False
    have 2: "\<forall>x \<in> set (mid @ [(k', v')]). snd x \<le> v" using Cons.prems False by force
    from Cons.IH [OF Cons.prems(1) 2, of k] False show ?thesis by (simp add: kv')
  qed
qed

lemma py_max_first_maximal:
  "py_max d = (case first_maximal d of None \<Rightarrow> Inl ValueError | Some kv \<Rightarrow> Inr (fst kv))"
proof (cases d)
  case Nil
  then show ?thesis by (simp add: first_maximal_def)
next
  case (Cons kv d')
  obtain k v where kv: "kv = (k, v)" by (cases kv)
  have "first_maximal ([] @ (k, v) # [] @ d') \<noteq> None \<and>
         max_loop (k, v) d' = fst (the (first_maximal ([] @ (k, v) # [] @ d')))"
    by (rule max_loop_first_maximal) simp_all
  then show ?thesis by (auto simp: Cons kv)
qed

lemma add_features_cong:
  "\<forall>f \<in> set fs. new_instance f = other_instance f \<Longrightarrow>
   add_features self class_label new_instance lp fs =
   add_features self class_label other_instance lp fs"
  by (induction fs arbitrary: lp) (auto split: option.splits)

lemma class_probabilities_cong:
  "\<forall>f \<in> set (self_features self). new_instance f = other_instance f \<Longrightarrow>
   class_probabilities self new_instance d = class_probabilities self other_instance d"
  by (induction d) (auto simp: add_features_cong [of "self_features self" new_instance other_instance]
      split: sum.splits)

lemma add_features_error: "add_features self class_label new_instance lp fs = Inl e \<Longrightarrow> e = KeyError"
  by (induction fs arbitrary: lp) (auto split: option.splits)

lemma add_features_unseen:
  assumes "f \<in> set fs" and "new_instance f = Some v"
    and "\<forall>by_feature by_value. self_class_conditional_probs self class_label = Some by_feature \<longrightarrow>
           by_feature f = Some by_value \<longrightarrow> by_value v = None"
  shows "add_features self class_label new_instance lp fs = Inl KeyError"
  using assms(1)
proof (induction fs arbitrary: lp)
  case Nil
  then show ?case by simp
next
  case (Cons g fs)
  show ?case
  proof (cases "g = f")
    case True
    then show ?thesis using assms(2,3) by (fastforce split: option.splits)
  next
    case False
    then have "f \<in> set fs" using Cons.prems by simp
    from Cons.IH [OF this] show ?thesis by (auto split: option.splits)
  qed
qed

lemmas census_simps = train_def class_frequencies_def unique_def first_occurrences_def
  feature_table_def value_table_def theta_k_j_v_def total_count_def N_k_vj_def person_def
  predict_def fit_predict_def fit_scores_def Let_def

lemma census_male_first_scores:
  "fit_scores 1 census_male_first ''sex'' [''job'' \<mapsto> ''Clerk'']
     = Inr [(''Male'', ln (1/2)), (''Female'', ln (1/2))]"
  by (simp add: census_male_first_def census_simps)

lemma census_female_first_scores:
  "fit_scores 1 census_female_first ''sex'' [''job'' \<mapsto> ''Clerk'']
     = Inr [(''Female'', ln (1/2)), (''Male'', ln (1/2))]"
  by (simp add: census_female_first_def census_simps)

lemma fit_predict_scores:
  "fit_predict a data target_class new_instance =
     (case fit_scores a data target_class new_instance of Inl e \<Rightarrow> Inl e | Inr probs \<Rightarrow> py_max probs)"
  by (simp add: fit_predict_def fit_scores_def predict_def split: sum.splits)

lemma class_probabilities_keys:
  "class_probabilities self new_instance d = Inr probs \<Longrightarrow> map fst probs = map fst d"
  by (induction d arbitrary: probs) (auto split: sum.splits)

lemma class_scores_keys:
  "class_scores g ws d = Inr probs \<Longrightarrow> map fst probs = map fst d"
  by (induction d arbitrary: probs) (auto split: sum.splits)

lemma trained_value_table:
  assumes t: "train a data target_class = Inr self"
    and "self_class_conditional_probs self class_label = Some by_feature"
    and "by_feature feature = Some by_value"
  shows "by_value = value_table a data target_class class_label feature"
  using assms(2,3) by (auto simp: train_InrD(3) [OF t] feature_table_apply split: if_splits)

lemma train_succeeds:
  "rows data = [] \<or> target_class \<in> set (columns data) \<Longrightarrow>
   \<exists>self. train a data target_class = Inr self"
  by (auto simp: train_def Let_def)

lemma trained_conditional:
  assumes t: "train a data target_class = Inr self"
    and c: "class_value \<in> domain_of data target_class"
    and f: "feature \<in> set (self_features self)"
    and v: "v \<in> domain_of data feature"
  shows "\<exists>by_feature by_value.
           self_class_conditional_probs self class_value = Some by_feature \<and>
           by_feature feature = Some by_value \<and>
           by_value v = Some (ln ((real (N_k_vj data target_class class_value feature v) + a) /
                                  (real (class_count data target_class class_value)
                                     + a * real (card (domain_of data feature)))))"
proof -
  have "rows data \<noteq> []" using v by (auto simp: domain_of_def)
  moreover have "feature \<in> set (columns data)" "feature \<noteq> target_class"
    using f by (simp_all add: train_InrD(4) [OF t])
  ultimately show ?thesis
    using c v by (simp add: train_InrD(3) [OF t] feature_table_apply value_table_apply)
qed

lemma train_log_priors:
  assumes t: "train a data target_class = Inr self"
    and k: "k \<in> domain_of data target_class"
  shows "map_of (self_log_priors self) k =
     Some (ln ((real (class_count data target_class k) + a) /
               (real (length (rows data)) + a * real (card (domain_of data target_class)))))"
  using k by (simp add: train_InrD(2) [OF t] map_of_keyed set_unique)

lemma sum_class_counts:
  "(\<Sum>k\<leftarrow>unique data target_class. class_count data target_class k) = length (rows data)"
proof -
  have "(\<Sum>k\<leftarrow>unique data target_class.
           length (filter (\<lambda>r. True \<and> r target_class = k) (rows data)))
        = length (filter (\<lambda>r. True) (rows data))"
    by (rule sum_list_filter_by_value) (auto simp: unique_def)
  then show ?thesis by (simp add: class_count_def)
qed

lemma sum_list_smoothed:
  fixes a c :: real
  shows "(\<Sum>k\<leftarrow>ks. (real (f k) + a) / c) = (real (\<Sum>k\<leftarrow>ks. f k) + a * real (length ks)) / c"
  by (induction ks) (simp_all add: add_divide_distrib algebra_simps)

lemma train_priors_sum:
  assumes t: "train a data target_class = Inr self" and a: "0 < a" and rows: "rows data \<noteq> []"
  shows "(\<Sum>(k, lp)\<leftarrow>self_log_priors self. exp lp) = 1"
proof -
  let ?n = "real (length (rows data))"
  let ?K = "real (card (domain_of data target_class))"
  have n: "0 < ?n" using rows by simp
  have den: "0 < ?n + a * ?K" using n a by (simp add: add_pos_nonneg)
  have "(\<Sum>(k, lp)\<leftarrow>self_log_priors self. exp lp) =
      (\<Sum>k\<leftarrow>unique data target_class.
          exp (ln ((real (class_count data target_class k) + a) / (?n + a * ?K))))"
    by (simp add: train_InrD(2) [OF t] comp_def)
  also have "\<dots> = (\<Sum>k\<leftarrow>unique data target_class.
          (real (class_count data target_class k) + a) / (?n + a * ?K))"
  proof (intro arg_cong [where f = sum_list] map_cong refl)
    fix k
    have "0 < (real (class_count data target_class k) + a) / (?n + a * ?K)"
      using a den by (simp add: add_nonneg_pos)
    then show "exp (ln ((real (class_count data target_class k) + a) / (?n + a * ?K)))
        = (real (class_count data target_class k) + a) / (?n + a * ?K)"
      by (rule exp_ln)
  qed
  also have "\<dots> = (?n + a * ?K) / (?n + a * ?K)"
    by (simp add: sum_list_smoothed sum_class_counts length_unique)
  also have "\<dots> = 1" using den by simp
  finally show ?thesis .
qed

lemma sum_smoothed:
  fixes a c :: real
  assumes "finite D"
  shows "(\<Sum>v\<in>D. (real (f v) + a) / c) = (real (\<Sum>v\<in>D. f v) + a * real (card D)) / c"
  using assms by (induction D) (simp_all add: add_divide_distrib algebra_simps)

lemma finite_domain_of [simp]: "finite (domain_of data feature)"
  by (simp add: domain_of_def)

lemma sum_joint_counts:
  "(\<Sum>v\<in>domain_of data feature. N_k_vj data target_class class_value feature v)
     = class_count data target_class class_value"
proof -
  have "(\<Sum>v\<in>set (unique data feature). N_k_vj data target_class class_value feature v)
      = total_count data target_class class_value feature"
    unfolding total_count_def
    by (rule sum_list_distinct_conv_sum_set [symmetric]) (simp add: unique_def)
  then show ?thesis by (simp add: set_unique total_count_eq class_count_def)
qed

lemma value_table_sum:
  assumes a: "0 < a" and rows: "rows data \<noteq> []"
  shows "(\<Sum>v\<in>domain_of data feature.
            exp (the (value_table a data target_class class_value feature v))) = 1"
proof -
  let ?D = "domain_of data feature"
  let ?N = "real (class_count data target_class class_value)"
  have "?D \<noteq> {}" using rows by (simp add: domain_of_def)
  then have "0 < card ?D" by (simp add: card_gt_0_iff)
  then have den: "0 < ?N + a * real (card ?D)" using a by (simp add: add_nonneg_pos)
  have "(\<Sum>v\<in>?D. exp (the (value_table a data target_class class_value feature v)))
      = (\<Sum>v\<in>?D. (real (N_k_vj data target_class class_value feature v) + a) /
                    (?N + a * real (card ?D)))"
  proof (rule sum.cong [OF refl])
    fix v assume v: "v \<in> ?D"
    have "0 < (real (N_k_vj data target_class class_value feature v) + a) / (?N + a * real (card ?D))"
      using a den by (simp add: add_nonneg_pos)
    then show "exp (the (value_table a data target_class class_value feature v))
        = (real (N_k_vj data target_class class_value feature v) + a) / (?N + a * real (card ?D))"
      using v by (simp add: value_table_apply exp_ln del: ln_div)
  qed
  also have "\<dots> = (?N + a * real (card ?D)) / (?N + a * real (card ?D))"
    by (simp add: sum_smoothed sum_joint_counts)
  also have "\<dots> = 1" using den by simp
  finally show ?thesis .
qed

lemma sum_occurrences:
  "(\<Sum>w\<in>set (unique_words cleaned). occurrences label cleaned w) = class_total label cleaned"
  unfolding occurrences_def class_total_def
  by (rule sum_count_set) (auto simp: unique_words_def messages_of_def)

lemma smoothed_table_sum:
  assumes "unique_words cleaned \<noteq> []"
  shows "(\<Sum>w\<in>set (unique_words cleaned). exp (the (smoothed_table label cleaned w))) = 1"
proof -
  let ?V = "set (unique_words cleaned)"
  let ?N = "real (class_total label cleaned)"
  have card: "card ?V = length (unique_words cleaned)"
    by (simp add: distinct_card distinct_unique_words)
  have "0 < real (length (unique_words cleaned))" using assms by simp
  then have den: "0 < ?N + 1 * real (length (unique_words cleaned))"
    by (simp add: add_nonneg_pos)
  have "(\<Sum>w\<in>?V. exp (the (smoothed_table label cleaned w)))
      = (\<Sum>w\<in>?V. (real (occurrences label cleaned w) + 1) /
                    (?N + 1 * real (length (unique_words cleaned))))"
  proof (rule sum.cong [OF refl])
    fix w assume w: "w \<in> ?V"
    have "0 < (real (occurrences label cleaned w) + 1) / (?N + 1 * real (length (unique_words cleaned)))"
      using den by (simp add: add_nonneg_pos)
    then show "exp (the (smoothed_table label cleaned w))
        = (real (occurrences label cleaned w) + 1) / (?N + 1 * real (length (unique_words cleaned)))"
      using w by (simp add: smoothed_table_def exp_ln del: ln_div)
  qed
  also have "\<dots> = (?N + 1 * real (length (unique_words cleaned))) / (?N + 1 * real (length (unique_words cleaned)))"
    by (simp add: sum_smoothed sum_occurrences card)
  also have "\<dots> = 1" using den by simp
  finally show ?thesis .
qed

lemma dom_value_table: "dom (value_table a data target_class class_value feature) = domain_of data feature"
  by (auto simp: value_table_apply dom_def)

lemma dom_smoothed_table: "dom (smoothed_table label cleaned) = set (unique_words cleaned)"
  by (auto simp: smoothed_table_def dom_def)

section \<open>Lemmas: counting and permutations\<close>

lemma count_list_mset: "count_list xs x = count (mset xs) x"
  by (induction xs) auto

lemma mset_concat_map: "mset (concat xss) = sum_mset (image_mset mset (mset xss))"
proof -
  have "mset (concat xss) = sum_list (map mset xss)" by (rule mset_concat)
  also have "\<dots> = sum_mset (mset (map mset xss))" by (rule sum_mset_sum_list [symmetric])
  finally show ?thesis by (simp only: mset_map)
qed

lemma messages_of_perm:
  assumes "mset cleaned = mset cleaned'"
  shows "mset (concat (messages_of label cleaned)) = mset (concat (messages_of label cleaned'))"
proof -
  have "mset (messages_of label cleaned) = mset (messages_of label cleaned')"
    unfolding messages_of_def using assms by simp
  then show ?thesis by (simp only: mset_concat_map)
qed

lemma occurrences_perm:
  assumes "mset cleaned = mset cleaned'"
  shows "occurrences label cleaned w = occurrences label cleaned' w"
  unfolding occurrences_def count_list_mset messages_of_perm [OF assms] ..

lemma class_total_perm:
  assumes "mset cleaned = mset cleaned'"
  shows "class_total label cleaned = class_total label cleaned'"
proof -
  have "size (mset (concat (messages_of label cleaned)))
      = size (mset (concat (messages_of label cleaned')))"
    unfolding messages_of_perm [OF assms] ..
  then show ?thesis unfolding class_total_def size_mset .
qed

lemma unique_words_perm:
  assumes "mset cleaned = mset cleaned'"
  shows "set (unique_words cleaned) = set (unique_words cleaned')"
proof -
  have "set cleaned = set cleaned'" using assms by (rule mset_eq_setD)
  then show ?thesis by (simp add: unique_words_def)
qed

lemma count_words_perm:
  assumes "mset cleaned = mset cleaned'"
  shows "count_words ord cleaned = count_words ord cleaned'"
  unfolding count_words_result
  using unique_words_perm [OF assms] occurrences_perm [OF assms] class_total_perm [OF assms]
  by (simp add: fun_eq_iff)

lemma value_counts_perm:
  assumes "mset labels = mset labels'"
  shows "value_counts labels = value_counts labels'"
proof -
  have s: "set labels = set labels'" using assms by (rule mset_eq_setD)
  have c: "count_list labels = count_list labels'"
    using assms by (simp add: fun_eq_iff count_list_mset)
  have "mset (remdups labels) = mset_set (set labels)"
    "mset (remdups labels') = mset_set (set labels')"
    using mset_set_set [of "remdups labels"] mset_set_set [of "remdups labels'"] by simp_all
  then have r: "mset (remdups labels) = mset (remdups labels')" using s by simp
  have m: "mset (map (count_list labels) (remdups labels))
      = mset (map (count_list labels') (remdups labels'))"
    unfolding mset_map c r ..
  have "sort (map (count_list labels) (remdups labels))
      = sort (map (count_list labels') (remdups labels'))"
    by (rule properties_for_sort) (simp_all only: mset_sort sorted_sort m)
  then show ?thesis by (simp add: value_counts_def)
qed

lemma class_frequencies_perm:
  assumes "mset (rows data) = mset (rows data')"
  shows "map_of (class_frequencies data target_class) = map_of (class_frequencies data' target_class)"
proof -
  have m: "mset (map (\<lambda>r. r target_class) (rows data)) = mset (map (\<lambda>r. r target_class) (rows data'))"
    using assms by simp
  then have "set (map (\<lambda>r. r target_class) (rows data)) = set (map (\<lambda>r. r target_class) (rows data'))"
    by (rule mset_eq_setD)
  then show ?thesis
    using m unfolding class_frequencies_eq
    by (simp add: fun_eq_iff map_of_keyed unique_def count_list_mset del: set_map mset_map)
qed

lemma N_k_vj_perm:
  assumes "mset (rows data) = mset (rows data')"
  shows "N_k_vj data target_class class_value feature v = N_k_vj data' target_class class_value feature v"
proof -
  have "size (mset (filter (\<lambda>r. r target_class = class_value \<and> r feature = v) (rows data)))
      = size (mset (filter (\<lambda>r. r target_class = class_value \<and> r feature = v) (rows data')))"
    unfolding mset_filter assms ..
  then show ?thesis unfolding N_k_vj_def size_mset .
qed

lemma domain_of_perm:
  assumes "mset (rows data) = mset (rows data')"
  shows "domain_of data feature = domain_of data' feature"
  unfolding domain_of_def using mset_eq_setD [OF assms] by simp

section \<open>The claims\<close>

subsection \<open>C1: what an unseen word adds to a class score\<close>

text \<open>
  C1 says that a token absent from the trained table adds
  \<open>ln ((0 + \<alpha>) / (N\<^sub>k + \<alpha> * V))\<close> to the score of class \<open>k\<close>. The notebook adds
  \<^verbatim>\<open>prob\<close> itself, with numerator \<open>1 + \<alpha>\<close>, and takes the class total from the
  module's \<^verbatim>\<open>key\<close>. With the training rows of the specification's scenario, the
  score of \<open>spam\<close> for the unseen word \<open>zebra\<close> is its prior plus \<open>2 / (2 + 5)\<close> when
  the set was visited spam first (\<^verbatim>\<open>key\<close> is \<open>ham\<close>), and its prior plus
  \<open>2 / (4 + 5)\<close> when it was visited ham first; C1 requires the prior plus
  \<open>ln (1 / (4 + 5))\<close>.
\<close>

theorem oov_word_adds_raw_probability:
  "run_notebook Spam_Ham scenario_data (\<lambda>g. class_probability g ''spam'' '''') = Inr (ln (1/2)) \<and>
   run_notebook Spam_Ham scenario_data (\<lambda>g. class_probability g ''spam'' ''zebra'')
     = Inr (ln (1/2) + 2/7) \<and>
   run_notebook Ham_Spam scenario_data (\<lambda>g. class_probability g ''spam'' '''') = Inr (ln (1/2)) \<and>
   run_notebook Ham_Spam scenario_data (\<lambda>g. class_probability g ''spam'' ''zebra'')
     = Inr (ln (1/2) + 2/9) \<and>
   (2/7 :: real) \<noteq> ln ((0 + 1) / (4 + 1 * 5)) \<and>
   (2/9 :: real) \<noteq> ln ((0 + 1) / (4 + 1 * 5))"
proof -
  obtain g where t: "training_cell Spam_Ham scenario_data = Inr g"
    using scenario_trains by blast
  obtain h where u: "training_cell Ham_Spam scenario_data = Inr h"
    using scenario_trains by blast
  note gl = scenario_globals [OF t]
  note hl = scenario_globals [OF u]
  have 1: "class_probability g ''spam'' '''' = Inr (ln (1/2))"
    by (simp add: class_probability_def class_scores_trained [OF t] gl clean_simps getitem_def)
  have 2: "class_probability g ''spam'' ''zebra'' = Inr (ln (1/2) + 2/7)"
    by (simp add: class_probability_def class_scores_trained [OF t] gl clean_simps getitem_def
        word_score_def oov_prob_def)
  have 3: "class_probability h ''spam'' '''' = Inr (ln (1/2))"
    by (simp add: class_probability_def class_scores_trained [OF u] hl clean_simps getitem_def)
  have 4: "class_probability h ''spam'' ''zebra'' = Inr (ln (1/2) + 2/9)"
    by (simp add: class_probability_def class_scores_trained [OF u] hl clean_simps getitem_def
        word_score_def oov_prob_def)
  have "ln ((0 + 1) / (4 + 1 * 5) :: real) \<le> 0" by simp
  then have 5: "(2/7 :: real) \<noteq> ln ((0 + 1) / (4 + 1 * 5))"
    and 6: "(2/9 :: real) \<noteq> ln ((0 + 1) / (4 + 1 * 5))"
    by linarith+
  from 1 2 3 4 5 6 show ?thesis by (simp add: run_notebook_def t u)
qed

subsection \<open>C2: the stored logarithms of the conditional probabilities\<close>

text \<open>
  C2: after training, the stored logarithm for a class \<open>k\<close> and an observed event is
  \<open>ln ((N\<^sub>k\<^sub>e + \<alpha>) / (N\<^sub>k + \<alpha> * V))\<close>. In the spam notebook (\<open>\<alpha> = 1\<close>) the event
  is a vocabulary word, \<open>N\<^sub>k\<^sub>e\<close> the occurrences of the word in the training messages
  of the class, \<open>N\<^sub>k\<close> the number of words in those messages and \<open>V\<close> the size of
  the vocabulary. In \<^verbatim>\<open>train\<close> the event is a value of a feature, \<open>N\<^sub>k\<^sub>e\<close> the
  number of rows of the class with that value, \<open>N\<^sub>k\<close> the number of rows of the class
  and \<open>V\<close> the number of distinct values of the feature. In the scenario of the
  spec the three instances are the training split, whatever the one held-out row is:
  the entry for \<open>win\<close> under \<open>spam\<close> is \<open>ln ((2 + 1) / (4 + 1 * 5))\<close>, and
  \<open>win prize\<close> is classified as \<open>spam\<close>.
\<close>

theorem stored_log_conditionals:
  "(training_cell ord shuffled_data = Inr g \<longrightarrow> (k = ''ham'' \<or> k = ''spam'') \<longrightarrow>
      w \<in> set (vocabulary g) \<longrightarrow>
      (\<exists>tbl. map_of (word_log_prob g) k = Some tbl \<and>
           tbl w = Some (ln ((real (occurrences k (cleaned_training_data shuffled_data) w) + 1) /
                             (real (class_total k (cleaned_training_data shuffled_data))
                                + 1 * real (card (set (vocabulary g)))))))) \<and>
   (train a data target_class = Inr self \<longrightarrow> class_value \<in> domain_of data target_class \<longrightarrow>
      feature \<in> set (self_features self) \<longrightarrow> v \<in> domain_of data feature \<longrightarrow>
      (\<exists>by_feature by_value.
           self_class_conditional_probs self class_value = Some by_feature \<and>
           by_feature feature = Some by_value \<and>
           by_value v = Some (ln ((real (N_k_vj data target_class class_value feature v) + a) /
                                  (real (class_count data target_class class_value)
                                     + a * real (card (domain_of data feature))))))) \<and>
   (training_cell ord' (scenario_training @ [held_out]) = Inr g' \<longrightarrow>
      cleaned_training_data (scenario_training @ [held_out]) = scenario_cleaned \<and>
      (\<exists>tbl. map_of (word_log_prob g') ''spam'' = Some tbl \<and>
             tbl ''win'' = Some (ln ((2 + 1) / (4 + 1 * 5)))) \<and>
      classify g' ''win prize'' = Inr ''spam'')"
proof (intro conjI impI)
  assume "training_cell ord shuffled_data = Inr g" "k = ''ham'' \<or> k = ''spam''"
    "w \<in> set (vocabulary g)"
  then show "\<exists>tbl. map_of (word_log_prob g) k = Some tbl \<and>
           tbl w = Some (ln ((real (occurrences k (cleaned_training_data shuffled_data) w) + 1) /
                             (real (class_total k (cleaned_training_data shuffled_data))
                                + 1 * real (card (set (vocabulary g))))))"
    by (rule trained_word_log_prob)
next
  assume "train a data target_class = Inr self" "class_value \<in> domain_of data target_class"
    "feature \<in> set (self_features self)" "v \<in> domain_of data feature"
  then show "\<exists>by_feature by_value.
           self_class_conditional_probs self class_value = Some by_feature \<and>
           by_feature feature = Some by_value \<and>
           by_value v = Some (ln ((real (N_k_vj data target_class class_value feature v) + a) /
                                  (real (class_count data target_class class_value)
                                     + a * real (card (domain_of data feature)))))"
    by (rule trained_conditional)
next
  show "cleaned_training_data (scenario_training @ [held_out]) = scenario_cleaned"
    by (rule heldout_cleaned)
next
  assume t: "training_cell ord' (scenario_training @ [held_out]) = Inr g'"
  have "map_of (word_log_prob g') ''spam'' = Some (smoothed_table ''spam'' scenario_cleaned)"
    using word_log_prob_lookup [OF t, of "''spam''"] by (simp add: heldout_cleaned)
  then show "\<exists>tbl. map_of (word_log_prob g') ''spam'' = Some tbl \<and>
             tbl ''win'' = Some (ln ((2 + 1) / (4 + 1 * 5)))"
    by (simp add: smoothed_scenario)
next
  assume t: "training_cell ord' (scenario_training @ [held_out]) = Inr g'"
  obtain l tx where "held_out = (l, tx)" by (cases held_out)
  with t show "classify g' ''win prize'' = Inr ''spam''"
    by (simp add: heldout_classify)
qed

theorem stored_log_conditionals_witness:
  "(\<exists>g tbl. training_cell Ham_Spam scenario_data = Inr g \<and>
       map_of (word_log_prob g) ''spam'' = Some tbl \<and> tbl ''prize'' = Some (ln (2/9))) \<and>
   (\<exists>self by_feature by_value. train 1 census_male_first ''sex'' = Inr self \<and>
       self_class_conditional_probs self ''Male'' = Some by_feature \<and>
       by_feature ''job'' = Some by_value \<and> by_value ''Clerk'' = Some (ln 1)) \<and>
   run_notebook Spam_Ham scenario_data (\<lambda>g. classify g ''win prize'') = Inr ''spam''"
proof -
  obtain g where t: "training_cell Ham_Spam scenario_data = Inr g"
    using scenario_trains by blast
  obtain g' where t': "training_cell Spam_Ham (scenario_training @ [(''ham'', ''see you'')]) = Inr g'"
    using scenario_trains [of Spam_Ham] by (auto simp: scenario_data_def scenario_training_def)
  obtain self where s: "train 1 census_male_first ''sex'' = Inr self"
    using train_succeeds [of census_male_first "''sex''" 1]
    by (auto simp: census_male_first_def)
  have w: "''prize'' \<in> set (vocabulary g)" by (simp add: scenario_globals [OF t])
  have c: "''Male'' \<in> domain_of census_male_first ''sex''"
    and v: "''Clerk'' \<in> domain_of census_male_first ''job''"
    by (simp_all add: domain_of_def census_male_first_def person_def)
  have f: "''job'' \<in> set (self_features self)"
    by (simp add: train_InrD(4) [OF s] census_male_first_def)
  note r = stored_log_conditionals [of Ham_Spam scenario_data g "''spam''" "''prize''"
      1 census_male_first "''sex''" self "''Male''" "''job''" "''Clerk''"
      Spam_Ham "(''ham'', ''see you'')" g']
  have 1: "\<exists>tbl. map_of (word_log_prob g) ''spam'' = Some tbl \<and> tbl ''prize'' = Some (ln (2/9))"
    using r t w
    by (simp add: scenario_cleaned_eq scenario_occurrences scenario_totals scenario_globals [OF t])
  have 2: "\<exists>by_feature by_value. self_class_conditional_probs self ''Male'' = Some by_feature \<and>
       by_feature ''job'' = Some by_value \<and> by_value ''Clerk'' = Some (ln 1)"
    using r s c f v
    by (simp add: N_k_vj_def class_count_def domain_of_def census_male_first_def person_def)
  have 3: "classify g' ''win prize'' = Inr ''spam''"
    using r t' by blast
  from 1 2 3 t s t' show ?thesis
    by (simp add: run_notebook_def scenario_data_def scenario_training_def)
qed

subsection \<open>C3: the class priors\<close>

text \<open>
  C3: the prior of a class is \<open>ln ((N\<^sub>k + \<alpha>) / (n + \<alpha> * K))\<close> with \<open>N\<^sub>k\<close> and \<open>n\<close>
  counted over the training instances only. \<^verbatim>\<open>train\<close> does so
  (\<open>train_log_priors\<close>). The spam notebook counts \<^verbatim>\<open>shuffled_data\<close>, which
  still holds the held-out rows: of five rows the first four are the training split,
  with one \<open>spam\<close> among them, and the stored prior of \<open>spam\<close> is
  \<open>ln ((2 + 1) / (5 + 2))\<close> where C3 requires \<open>ln ((1 + 1) / (4 + 1 * 2))\<close>.
\<close>

theorem priors_use_held_out_rows:
  "map fst (training_data leak_data) = [''ham'', ''spam'', ''ham'', ''ham''] \<and>
   map fst (testing_data leak_data) = [''spam''] \<and>
   run_notebook Ham_Spam leak_data (\<lambda>g. Inr (log_priors g))
     = Inr [(''ham'', ln ((3 + 1) / (5 + 2))), (''spam'', ln ((2 + 1) / (5 + 2)))] \<and>
   ln ((2 + 1) / (5 + 2) :: real) \<noteq> ln ((1 + 1) / (4 + 1 * 2))"
proof -
  have p: "class_priors leak_data
      = Inr [(''ham'', ln ((3 + 1) / (5 + 2))), (''spam'', ln ((2 + 1) / (5 + 2)))]"
    by (simp add: leak_data_def class_priors_def value_counts_def iloc_def Let_def)
  have "ln ((2 + 1) / (5 + 2) :: real) \<noteq> ln ((1 + 1) / (4 + 1 * 2))"
    by (subst ln_inj_iff) simp_all
  then show ?thesis
    using training_cell_result [OF p, of Ham_Spam]
    by (simp add: run_notebook_def) (simp add: leak_data_def training_data_def testing_data_def split_index_def)
qed

subsection \<open>C4: a value of a trained feature that training never saw\<close>

text \<open>
  C4 as stated: \<^verbatim>\<open>predict\<close> on an instance whose value for a trained feature was
  never observed raises no error and returns a normal result. It fails: trained on two
  clerks, \<^verbatim>\<open>predict\<close> on a pilot raises \<^verbatim>\<open>KeyError\<close>.
\<close>

theorem predict_unseen_value_counterexample:
  "fit_predict 1 census_male_first ''sex'' [''job'' \<mapsto> ''Pilot''] = Inl KeyError"
  by (simp add: census_male_first_def census_simps)

text \<open>
  C4 as amended: the class has no fallback path. After \<^verbatim>\<open>train\<close> on a table with
  at least one row, \<^verbatim>\<open>predict\<close> on an instance whose value for a trained feature
  is not among the values that feature takes in the table raises \<^verbatim>\<open>KeyError\<close>.
\<close>

theorem predict_unseen_value:
  assumes t: "train a data target_class = Inr self"
    and f: "feature \<in> set (self_features self)"
    and v: "new_instance feature = Some v"
    and unseen: "v \<notin> domain_of data feature"
    and rows: "rows data \<noteq> []"
  shows "predict self new_instance = Inl KeyError"
proof -
  have "unique data target_class \<noteq> []" using rows by (simp add: unique_Nil_iff)
  then obtain k p d where priors: "self_log_priors self = (k, p) # d"
    unfolding train_InrD(2) [OF t] by (cases "unique data target_class") auto
  have "\<forall>by_feature by_value. self_class_conditional_probs self k = Some by_feature \<longrightarrow>
           by_feature feature = Some by_value \<longrightarrow> by_value v = None"
  proof (intro allI impI)
    fix by_feature by_value
    assume "self_class_conditional_probs self k = Some by_feature"
      and "by_feature feature = Some by_value"
    then have "by_value = value_table a data target_class k feature"
      by (rule trained_value_table [OF t])
    then show "by_value v = None" using unseen by (simp add: value_table_apply)
  qed
  from add_features_unseen [where new_instance = new_instance and f = feature and v = v, OF f v this]
  have "add_features self k new_instance p (self_features self) = Inl KeyError" .
  then show ?thesis by (simp add: predict_def priors)
qed

theorem predict_unseen_value_witness:
  "fit_predict 1 census_female_first ''sex'' [''job'' \<mapsto> ''Nurse''] = Inl KeyError"
proof -
  obtain self where t: "train 1 census_female_first ''sex'' = Inr self"
    using train_succeeds [of census_female_first "''sex''" 1]
    by (auto simp: census_female_first_def)
  have f: "''job'' \<in> set (self_features self)"
    by (simp add: train_InrD(4) [OF t] census_female_first_def)
  have v: "[''job'' \<mapsto> ''Nurse''] ''job'' = Some ''Nurse''" by simp
  have unseen: "''Nurse'' \<notin> domain_of census_female_first ''job''"
    by (simp add: domain_of_def census_female_first_def person_def)
  have rows: "rows census_female_first \<noteq> []" by (simp add: census_female_first_def)
  from predict_unseen_value [where new_instance = "[''job'' \<mapsto> ''Nurse'']"
      and feature = "''job''" and v = "''Nurse''", OF t f v unseen rows]
  show ?thesis
    by (simp add: fit_predict_def t)
qed

subsection \<open>C5: a field the trained schema does not have\<close>

text \<open>
  C5 as stated: \<^verbatim>\<open>predict\<close> on an instance that carries a feature name absent
  from the trained schema fails with a schema error. It fails: the loop of
  \<^verbatim>\<open>predict\<close> runs over \<^verbatim>\<open>self.features\<close> only, and an instance with an
  extra \<open>age\<close> field is classified.
\<close>

theorem predict_extra_field_counterexample:
  "fit_predict 1 census_male_first ''sex'' [''job'' \<mapsto> ''Clerk'', ''age'' \<mapsto> ''40''] = Inr ''Male''"
  by (simp add: census_male_first_def census_simps)

text \<open>
  C5 as amended: a field whose name is not a trained feature is ignored. Adding it to
  an instance changes neither the label \<^verbatim>\<open>predict\<close> returns nor the error it
  raises.
\<close>

theorem predict_ignores_unknown_field:
  assumes "extra \<notin> set (self_features self)"
  shows "predict self (new_instance(extra \<mapsto> x)) = predict self new_instance"
proof -
  have "\<forall>f \<in> set (self_features self). (new_instance(extra \<mapsto> x)) f = new_instance f"
    using assms by auto
  then have "class_probabilities self (new_instance(extra \<mapsto> x)) (self_log_priors self) =
      class_probabilities self new_instance (self_log_priors self)"
    by (rule class_probabilities_cong)
  then show ?thesis by (simp only: predict_def)
qed

theorem predict_ignores_unknown_field_witness:
  "fit_predict 1 census_female_first ''sex'' [''job'' \<mapsto> ''Clerk'', ''age'' \<mapsto> ''40'']
     = fit_predict 1 census_female_first ''sex'' [''job'' \<mapsto> ''Clerk'']"
proof -
  obtain self where t: "train 1 census_female_first ''sex'' = Inr self"
    using train_succeeds [of census_female_first "''sex''" 1]
    by (auto simp: census_female_first_def)
  have "''age'' \<notin> set (self_features self)"
    by (simp add: train_InrD(4) [OF t] census_female_first_def)
  from predict_ignores_unknown_field [OF this, of "[''job'' \<mapsto> ''Clerk'']" "''40''"]
  show ?thesis by (simp add: fit_predict_def t)
qed

subsection \<open>C6: ties between classes\<close>

text \<open>
  C6 as stated: among classes with the same maximal score \<^verbatim>\<open>predict\<close> returns
  the label that sorts first in a fixed total order, never depending on insertion
  order. It fails: the same two rows in either order give the same tied scores, and
  \<^verbatim>\<open>predict\<close> returns \<open>''Male''\<close> for one order and \<open>''Female''\<close> for the other.
\<close>

theorem tie_depends_on_row_order:
  "fit_scores 1 census_male_first ''sex'' [''job'' \<mapsto> ''Clerk'']
     = Inr [(''Male'', ln (1/2)), (''Female'', ln (1/2))] \<and>
   fit_predict 1 census_male_first ''sex'' [''job'' \<mapsto> ''Clerk''] = Inr ''Male'' \<and>
   fit_scores 1 census_female_first ''sex'' [''job'' \<mapsto> ''Clerk'']
     = Inr [(''Female'', ln (1/2)), (''Male'', ln (1/2))] \<and>
   fit_predict 1 census_female_first ''sex'' [''job'' \<mapsto> ''Clerk''] = Inr ''Female'' \<and>
   mset (rows census_male_first) = mset (rows census_female_first)"
  by (simp add: fit_predict_scores census_male_first_scores census_female_first_scores)
     (simp add: census_male_first_def census_female_first_def)

text \<open>
  C6 as amended: \<^verbatim>\<open>max\<close> returns the first key, in the dictionary's insertion
  order, whose score no other score exceeds. For \<^verbatim>\<open>predict\<close> that order is the
  order in which the class labels first appear in the training rows; for
  \<^verbatim>\<open>classify\<close> it is \<open>ham\<close> before \<open>spam\<close>.
\<close>

theorem max_returns_first_maximal:
  "(train a data target_class = Inr self \<longrightarrow>
      class_probabilities self new_instance (self_log_priors self) = Inr probs \<longrightarrow>
      map fst probs = unique data target_class \<and>
      predict self new_instance =
        (case first_maximal probs of None \<Rightarrow> Inl ValueError | Some kv \<Rightarrow> Inr (fst kv))) \<and>
   (training_cell ord shuffled_data = Inr g \<longrightarrow>
      class_scores g (clean_message message) (log_priors g) = Inr scores \<longrightarrow>
      map fst scores = [''ham'', ''spam''] \<and>
      classify g message =
        (case first_maximal scores of None \<Rightarrow> Inl ValueError | Some kv \<Rightarrow> Inr (fst kv)))"
proof (intro conjI impI)
  assume t: "train a data target_class = Inr self"
    and p: "class_probabilities self new_instance (self_log_priors self) = Inr probs"
  show "map fst probs = unique data target_class"
    using class_probabilities_keys [OF p] by (simp add: train_InrD(2) [OF t] comp_def)
  show "predict self new_instance =
        (case first_maximal probs of None \<Rightarrow> Inl ValueError | Some kv \<Rightarrow> Inr (fst kv))"
    by (simp add: predict_def p py_max_first_maximal)
next
  assume t: "training_cell ord shuffled_data = Inr g"
    and s: "class_scores g (clean_message message) (log_priors g) = Inr scores"
  obtain x y where "log_priors g = [(''ham'', x), (''spam'', y)]"
    using class_priors_shape [OF training_cell_InrD(1) [OF t]] by blast
  then show "map fst scores = [''ham'', ''spam'']"
    using class_scores_keys [OF s] by simp
  show "classify g message =
        (case first_maximal scores of None \<Rightarrow> Inl ValueError | Some kv \<Rightarrow> Inr (fst kv))"
    by (simp add: classify_def s py_max_first_maximal)
qed

theorem max_returns_first_maximal_witness:
  "fit_predict 1 census_female_first ''sex'' [''job'' \<mapsto> ''Clerk''] = Inr ''Female'' \<and>
   unique census_female_first ''sex'' = [''Female'', ''Male''] \<and>
   run_notebook Ham_Spam scenario_data (\<lambda>g. classify g '''') = Inr ''ham''"
proof -
  let ?probs = "[(''Female'', ln (1/2 :: real)), (''Male'', ln (1/2))]"
  let ?scores = "[(''ham'', ln (1/2 :: real)), (''spam'', ln (1/2))]"
  obtain self where t: "train 1 census_female_first ''sex'' = Inr self"
    using train_succeeds [of census_female_first "''sex''" 1]
    by (auto simp: census_female_first_def)
  have p: "class_probabilities self [''job'' \<mapsto> ''Clerk''] (self_log_priors self) = Inr ?probs"
    using census_female_first_scores by (simp add: fit_scores_def t)
  obtain g where c: "training_cell Ham_Spam scenario_data = Inr g"
    using scenario_trains by blast
  have s: "class_scores g (clean_message '''') (log_priors g) = Inr ?scores"
    by (simp add: class_scores_trained [OF c] scenario_globals [OF c] clean_simps)
  have fm: "first_maximal ?probs = Some (''Female'', ln (1/2))"
    "first_maximal ?scores = Some (''ham'', ln (1/2))"
    by (simp_all add: first_maximal_def)
  from max_returns_first_maximal [of 1 census_female_first "''sex''" self
      "[''job'' \<mapsto> ''Clerk'']" ?probs Ham_Spam scenario_data g "''''" ?scores] t p c s
  show ?thesis
    by (simp add: fm fit_predict_def run_notebook_def)
qed

subsection \<open>C7: the priors form a distribution\<close>

text \<open>
  C7: for \<open>\<alpha> > 0\<close> the exponentials of the stored priors sum to 1. For
  \<^verbatim>\<open>train\<close> this holds on every table with at least one row. The spam notebook
  has \<open>\<alpha> = 1\<close> and two classes written out, and it holds whenever the data has
  no more than two distinct labels, as its input format (\<open>ham\<close> and \<open>spam\<close>) says.
  The sums are sums of real numbers.
\<close>

theorem priors_sum_to_one:
  "(train a data target_class = Inr self \<longrightarrow> 0 < a \<longrightarrow> rows data \<noteq> [] \<longrightarrow>
      (\<Sum>(k, lp)\<leftarrow>self_log_priors self. exp lp) = 1) \<and>
   (training_cell ord shuffled_data = Inr g \<longrightarrow>
      card (set (map fst shuffled_data)) \<le> 2 \<longrightarrow>
      (\<Sum>(k, lp)\<leftarrow>log_priors g. exp lp) = 1)"
  using train_priors_sum class_priors_sum training_cell_InrD(1) by blast

theorem priors_sum_to_one_witness:
  "(\<exists>self. train 1 census_male_first ''sex'' = Inr self \<and>
       self_log_priors self = [(''Male'', ln (1/2)), (''Female'', ln (1/2))] \<and>
       (\<Sum>(k, lp)\<leftarrow>self_log_priors self. exp lp) = 1) \<and>
   (\<exists>g. training_cell Ham_Spam leak_data = Inr g \<and> 
       log_priors g = [(''ham'', ln ((3 + 1) / (5 + 2))), (''spam'', ln ((2 + 1) / (5 + 2)))] \<and>
       (\<Sum>(k, lp)\<leftarrow>log_priors g. exp lp) = 1)"
proof -
  obtain self where s: "train 1 census_male_first ''sex'' = Inr self"
    using train_succeeds [of census_male_first "''sex''" 1]
    by (auto simp: census_male_first_def)
  have p: "class_priors leak_data
      = Inr [(''ham'', ln ((3 + 1) / (5 + 2))), (''spam'', ln ((2 + 1) / (5 + 2)))]"
    by (simp add: leak_data_def class_priors_def value_counts_def iloc_def Let_def)
  obtain g where t: "training_cell Ham_Spam leak_data = Inr g"
    using training_cell_result [OF p, of Ham_Spam] by simp
  have lp: "log_priors g = [(''ham'', ln ((3 + 1) / (5 + 2))), (''spam'', ln ((2 + 1) / (5 + 2)))]"
    using training_cell_InrD(1) [OF t] p by simp
  have sp: "self_log_priors self = [(''Male'', ln (1/2)), (''Female'', ln (1/2))]"
    using s by (auto simp: census_male_first_def census_simps)
  have r: "rows census_male_first \<noteq> []" by (simp add: census_male_first_def)
  have "set (map fst leak_data) \<subseteq> {''ham'', ''spam''}" by (simp add: leak_data_def)
  then have "card (set (map fst leak_data)) \<le> card {''ham'', ''spam''}"
    by (intro card_mono) simp_all
  then have l: "card (set (map fst leak_data)) \<le> 2" by simp
  have one: "(0::real) < 1" by simp
  from priors_sum_to_one [of 1 census_male_first "''sex''" self Ham_Spam leak_data g] s t r l one
  have "(\<Sum>(k, lp)\<leftarrow>self_log_priors self. exp lp) = 1" "(\<Sum>(k, lp)\<leftarrow>log_priors g. exp lp) = 1"
    by blast+
  with s t sp lp show ?thesis by blast
qed

subsection \<open>C8: the conditionals of a class form a distribution\<close>

text \<open>
  C8: for every class, the exponentials of the stored conditionals sum to 1 over the
  domain, which is the set of values of one feature in \<^verbatim>\<open>train\<close> (\<open>\<alpha> > 0\<close>) and
  the vocabulary in the spam notebook. The stored table has exactly the domain as
  its keys. For the spam notebook the vocabulary must hold at least one word for
  there to be a distribution over it. The sums are sums of real numbers.
\<close>

theorem conditionals_sum_to_one:
  "(train a data target_class = Inr self \<longrightarrow> 0 < a \<longrightarrow>
      class_value \<in> domain_of data target_class \<longrightarrow> feature \<in> set (self_features self) \<longrightarrow>
      (\<exists>by_feature by_value.
          self_class_conditional_probs self class_value = Some by_feature \<and>
          by_feature feature = Some by_value \<and>
          dom by_value = domain_of data feature \<and>
          (\<Sum>v\<in>domain_of data feature. exp (the (by_value v))) = 1)) \<and>
   (training_cell ord shuffled_data = Inr g \<longrightarrow> (k = ''ham'' \<or> k = ''spam'') \<longrightarrow>
      vocabulary g \<noteq> [] \<longrightarrow>
      (\<exists>tbl. map_of (word_log_prob g) k = Some tbl \<and>
          dom tbl = set (vocabulary g) \<and>
          (\<Sum>w\<in>set (vocabulary g). exp (the (tbl w))) = 1))"
proof (intro conjI impI)
  assume t: "train a data target_class = Inr self" and a: "0 < a"
    and c: "class_value \<in> domain_of data target_class"
    and f: "feature \<in> set (self_features self)"
  have rows: "rows data \<noteq> []" using c by (auto simp: domain_of_def)
  have "feature \<in> set (columns data)" "feature \<noteq> target_class"
    using f by (simp_all add: train_InrD(4) [OF t])
  then have "self_class_conditional_probs self class_value
        = Some (feature_table a data target_class class_value)"
    and "feature_table a data target_class class_value feature
        = Some (value_table a data target_class class_value feature)"
    using c rows by (simp_all add: train_InrD(3) [OF t] feature_table_apply)
  then show "\<exists>by_feature by_value.
          self_class_conditional_probs self class_value = Some by_feature \<and>
          by_feature feature = Some by_value \<and>
          dom by_value = domain_of data feature \<and>
          (\<Sum>v\<in>domain_of data feature. exp (the (by_value v))) = 1"
    using value_table_sum [OF a rows] dom_value_table by blast
next
  assume t: "training_cell ord shuffled_data = Inr g" and k: "k = ''ham'' \<or> k = ''spam''"
    and ne: "vocabulary g \<noteq> []"
  note v = training_cell_InrD(2) [OF t]
  show "\<exists>tbl. map_of (word_log_prob g) k = Some tbl \<and>
          dom tbl = set (vocabulary g) \<and>
          (\<Sum>w\<in>set (vocabulary g). exp (the (tbl w))) = 1"
    using word_log_prob_lookup [OF t k] smoothed_table_sum [of "cleaned_training_data shuffled_data" k]
      dom_smoothed_table [of k "cleaned_training_data shuffled_data"] ne
    by (simp add: v)
qed

theorem conditionals_sum_to_one_witness:
  "(\<exists>self by_feature by_value. train 1 census_sample ''sex'' = Inr self \<and>
       self_class_conditional_probs self ''Male'' = Some by_feature \<and>
       by_feature ''job'' = Some by_value \<and> dom by_value = {''Clerk'', ''Nurse''} \<and>
       (\<Sum>v\<in>{''Clerk'', ''Nurse''}. exp (the (by_value v))) = 1) \<and>
   (\<exists>g tbl. training_cell Ham_Spam scenario_data = Inr g \<and>
       map_of (word_log_prob g) ''spam'' = Some tbl \<and>
       dom tbl = {''money'', ''hello'', ''friend'', ''win'', ''prize''} \<and>
       (\<Sum>w\<in>{''money'', ''hello'', ''friend'', ''win'', ''prize''}. exp (the (tbl w))) = 1)"
proof -
  obtain self where s: "train 1 census_sample ''sex'' = Inr self"
    using train_succeeds [of census_sample "''sex''" 1]
    by (auto simp: census_sample_def)
  obtain g where t: "training_cell Ham_Spam scenario_data = Inr g"
    using scenario_trains by blast
  have c: "''Male'' \<in> domain_of census_sample ''sex''"
    by (simp add: domain_of_def census_sample_def person_def)
  have d: "domain_of census_sample ''job'' = {''Clerk'', ''Nurse''}"
    by (auto simp: domain_of_def census_sample_def person_def)
  have f: "''job'' \<in> set (self_features self)"
    by (simp add: train_InrD(4) [OF s] census_sample_def)
  have v: "set (vocabulary g) = {''money'', ''hello'', ''friend'', ''win'', ''prize''}"
    "vocabulary g \<noteq> []"
    by (simp_all add: scenario_globals [OF t])
  have one: "(0::real) < 1" by simp
  have k: "''spam'' = ''ham'' \<or> ''spam'' = ''spam''" by simp
  note r = conditionals_sum_to_one [of 1 census_sample "''sex''" self "''Male''" "''job''"
      Ham_Spam scenario_data g "''spam''"]
  note r1 = r [THEN conjunct1, rule_format, OF s one c f, unfolded d]
  note r2 = r [THEN conjunct2, rule_format, OF t k v(2), unfolded v(1)]
  have 1: "\<exists>self by_feature by_value. train 1 census_sample ''sex'' = Inr self \<and>
       self_class_conditional_probs self ''Male'' = Some by_feature \<and>
       by_feature ''job'' = Some by_value \<and> dom by_value = {''Clerk'', ''Nurse''} \<and>
       (\<Sum>v\<in>{''Clerk'', ''Nurse''}. exp (the (by_value v))) = 1"
    using r1 by (elim exE, intro exI conjI) (rule s, (elim conjE, assumption)+)
  have 2: "\<exists>g tbl. training_cell Ham_Spam scenario_data = Inr g \<and>
       map_of (word_log_prob g) ''spam'' = Some tbl \<and>
       dom tbl = {''money'', ''hello'', ''friend'', ''win'', ''prize''} \<and>
       (\<Sum>w\<in>{''money'', ''hello'', ''friend'', ''win'', ''prize''}. exp (the (tbl w))) = 1"
    using r2 by (elim exE, intro exI conjI) (rule t, (elim conjE, assumption)+)
  from 1 2 show ?thesis by (rule conjI)
qed

subsection \<open>C9: counting does not depend on the order of the instances\<close>

text \<open>
  C9: permuting the training instances leaves every count unchanged. In the spam
  notebook: \<^verbatim>\<open>word_frequency\<close> with both totals, the vocabulary as a set and its
  size, and the label counts the priors are made from. In \<^verbatim>\<open>train\<close>: the count
  stored for every class, every count of a class together with a feature value, the
  total per class and feature, and every feature's set of values and their number.
  Only the order in which \<^verbatim>\<open>class_frequencies\<close> lists its keys follows the rows.
\<close>

theorem counting_is_order_independent:
  "(mset cleaned = mset cleaned' \<longrightarrow>
      count_words ord cleaned = count_words ord cleaned' \<and>
      set (unique_words cleaned) = set (unique_words cleaned') \<and>
      length (unique_words cleaned) = length (unique_words cleaned')) \<and>
   (mset shuffled_data = mset shuffled_data' \<longrightarrow>
      value_counts (map fst shuffled_data) = value_counts (map fst shuffled_data')) \<and>
   (mset (rows data) = mset (rows data') \<longrightarrow>
      map_of (class_frequencies data target_class) = map_of (class_frequencies data' target_class) \<and>
      N_k_vj data target_class class_value feature v
        = N_k_vj data' target_class class_value feature v \<and>
      total_count data target_class class_value feature
        = total_count data' target_class class_value feature \<and>
      set (unique data feature) = set (unique data' feature) \<and>
      length (unique data feature) = length (unique data' feature))"
proof (intro conjI impI)
  assume m: "mset cleaned = mset cleaned'"
  show "count_words ord cleaned = count_words ord cleaned'"
    using m by (rule count_words_perm)
  show s: "set (unique_words cleaned) = set (unique_words cleaned')"
    using m by (rule unique_words_perm)
  have "card (set (unique_words cleaned)) = card (set (unique_words cleaned'))"
    by (simp only: s)
  then show "length (unique_words cleaned) = length (unique_words cleaned')"
    by (simp only: distinct_card [OF distinct_unique_words])
next
  assume "mset shuffled_data = mset shuffled_data'"
  then have "mset (map fst shuffled_data) = mset (map fst shuffled_data')" by simp
  then show "value_counts (map fst shuffled_data) = value_counts (map fst shuffled_data')"
    by (rule value_counts_perm)
next
  assume m: "mset (rows data) = mset (rows data')"
  show "map_of (class_frequencies data target_class) = map_of (class_frequencies data' target_class)"
    using m by (rule class_frequencies_perm)
  show "N_k_vj data target_class class_value feature v
        = N_k_vj data' target_class class_value feature v"
    using m by (rule N_k_vj_perm)
  have "size (mset (filter (\<lambda>r. r target_class = class_value) (rows data)))
      = size (mset (filter (\<lambda>r. r target_class = class_value) (rows data')))"
    unfolding mset_filter m ..
  then show "total_count data target_class class_value feature
        = total_count data' target_class class_value feature"
    unfolding total_count_eq size_mset .
  show "set (unique data feature) = set (unique data' feature)"
    unfolding set_unique using m by (rule domain_of_perm)
  show "length (unique data feature) = length (unique data' feature)"
    unfolding length_unique domain_of_perm [OF m] ..
qed

theorem counting_is_order_independent_witness:
  "count_words Spam_Ham (rev scenario_cleaned) = count_words Spam_Ham scenario_cleaned \<and>
   set (unique_words (rev scenario_cleaned)) = set (unique_words scenario_cleaned) \<and>
   value_counts (map fst (rev leak_data)) = value_counts (map fst leak_data) \<and>
   map_of (class_frequencies census_female_first ''sex'')
     = map_of (class_frequencies census_male_first ''sex'') \<and>
   N_k_vj census_female_first ''sex'' ''Male'' ''job'' ''Clerk''
     = N_k_vj census_male_first ''sex'' ''Male'' ''job'' ''Clerk'' \<and>
   unique census_female_first ''sex'' = [''Female'', ''Male''] \<and>
   unique census_male_first ''sex'' = [''Male'', ''Female'']"
proof -
  have 1: "mset (rev scenario_cleaned) = mset scenario_cleaned" by simp
  have 2: "mset (rev leak_data) = mset leak_data" by simp
  have 3: "mset (rows census_female_first) = mset (rows census_male_first)"
    by (simp add: census_female_first_def census_male_first_def)
  note r = counting_is_order_independent [of "rev scenario_cleaned" scenario_cleaned Spam_Ham
      "rev leak_data" leak_data census_female_first census_male_first
      "''sex''" "''Male''" "''job''" "''Clerk''"]
  have u: "unique census_female_first ''sex'' = [''Female'', ''Male'']"
    "unique census_male_first ''sex'' = [''Male'', ''Female'']"
    by (simp_all add: unique_def first_occurrences_def census_female_first_def
        census_male_first_def person_def)
  from r [THEN conjunct1, rule_format, OF 1] r [THEN conjunct2, THEN conjunct1, rule_format, OF 2]
    r [THEN conjunct2, THEN conjunct2, rule_format, OF 3] u
  show ?thesis by (elim conjE, intro conjI)
qed

subsection \<open>C10: what words outside the vocabulary add\<close>

text \<open>
  C10 as stated: the amount added for a word outside the vocabulary comes from the
  module's \<^verbatim>\<open>key\<close> and is the same for every class, so two messages with the same
  sequence of vocabulary words always get the same label. The second half fails. When
  training found no word at all, the denominator of \<^verbatim>\<open>prob\<close> is 0, and of two
  messages without vocabulary words the empty one is classified while the other
  raises \<^verbatim>\<open>ZeroDivisionError\<close>.
\<close>

theorem oov_word_raises_on_empty_vocabulary:
  "run_notebook Ham_Spam digits_data (\<lambda>g. Inr (in_vocabulary g (clean_message ''''))) = Inr [] \<and>
   run_notebook Ham_Spam digits_data (\<lambda>g. Inr (in_vocabulary g (clean_message ''hi''))) = Inr [] \<and>
   run_notebook Ham_Spam digits_data (\<lambda>g. classify g '''') = Inr ''ham'' \<and>
   run_notebook Ham_Spam digits_data (\<lambda>g. classify g ''hi'') = Inl ZeroDivisionError"
proof -
  obtain g where t: "training_cell Ham_Spam digits_data = Inr g"
    using digits_trains by blast
  note gl = digits_globals [OF t]
  have 1: "classify g '''' = Inr ''ham''"
    unfolding classify_def class_scores_trained [OF t]
    by (simp add: gl clean_simps)
  have 2: "classify g ''hi'' = Inl ZeroDivisionError"
    unfolding classify_def class_scores_trained [OF t]
    by (simp add: gl clean_simps)
  show ?thesis
    by (simp add: run_notebook_def t in_vocabulary_def gl(2) 1 2)
qed

text \<open>
  C10 as amended: whatever class is being scored and wherever the word stands in the
  message, a word outside the vocabulary makes \<^verbatim>\<open>classify\<close> add \<open>oov_prob\<close> to the
  running score and go on. \<open>oov_prob\<close> is \<open>(1 + \<alpha>) / (N + \<alpha> * V)\<close> with \<open>\<alpha> = 1\<close>, \<open>V\<close>
  the size of the vocabulary and \<open>N\<close> the number of training words of the class named
  by \<^verbatim>\<open>key\<close>, the last key of the training loop: no class label enters it. When the
  vocabulary is empty the division raises \<^verbatim>\<open>ZeroDivisionError\<close> instead, for
  every class. The label is left out of the statement: the program accumulates each
  score by additions of doubles in the order of the words, and what their rounding
  does to the comparison of two scores is not modelled.
\<close>

theorem oov_amount_is_class_independent:
  assumes t: "training_cell ord shuffled_data = Inr g"
    and oov: "word \<notin> set (vocabulary g)"
  shows "key g = last (set_iteration ord) \<and>
         oov_prob g =
           (1 + 1) / (real (class_total (key g) (cleaned_training_data shuffled_data))
                        + 1 * real (length (vocabulary g))) \<and>
         score_words g class_label log_prob (word # ws) =
           (if vocabulary g = [] then Inl ZeroDivisionError
            else score_words g class_label (log_prob + oov_prob g) ws)"
proof -
  note d = training_cell_InrD [OF t]
  have k: "key g = ''ham'' \<or> key g = ''spam''"
    unfolding d(6) by (cases ord) simp_all
  have n: "(if key g = ''spam'' then words_in_spam g else words_in_ham g)
      = class_total (key g) (cleaned_training_data shuffled_data)"
    using k by (auto simp: d(3,4))
  have p: "oov_prob g =
           (1 + 1) / (real (class_total (key g) (cleaned_training_data shuffled_data))
                        + 1 * real (length (vocabulary g)))"
    unfolding oov_prob_def n by (simp add: d(7))
  have s: "score_words g class_label log_prob (word # ws) =
           (if vocabulary g = [] then Inl ZeroDivisionError
            else score_words g class_label (log_prob + oov_prob g) ws)"
  proof (cases "vocabulary g = []")
    case True
    then have "words_in_spam g = 0" "words_in_ham g = 0"
      using d(2,3,4) by (simp_all add: class_total_empty)
    with True oov show ?thesis by simp
  next
    case False
    then have "length (vocabulary g) \<noteq> 0" by simp
    with False oov show ?thesis
      by (simp add: d(7) Let_def oov_prob_def)
  qed
  from d(6) p s show ?thesis by simp
qed

theorem oov_amount_is_class_independent_witness:
  "run_notebook Ham_Spam scenario_data (\<lambda>g. Inr (key g)) = Inr ''spam'' \<and>
   run_notebook Ham_Spam scenario_data (\<lambda>g. Inr (oov_prob g)) = Inr ((1 + 1) / (4 + 1 * 5)) \<and>
   run_notebook Ham_Spam scenario_data (\<lambda>g. score_words g ''ham'' 0 [''zebra'']) = Inr (2/9) \<and>
   run_notebook Ham_Spam scenario_data (\<lambda>g. score_words g ''spam'' 0 [''zebra'']) = Inr (2/9) \<and>
   run_notebook Ham_Spam digits_data (\<lambda>g. score_words g ''ham'' 0 [''hi''])
     = Inl ZeroDivisionError \<and>
   run_notebook Ham_Spam digits_data (\<lambda>g. score_words g ''spam'' 0 [''hi''])
     = Inl ZeroDivisionError"
proof -
  obtain g where t: "training_cell Ham_Spam scenario_data = Inr g"
    using scenario_trains by blast
  obtain h where u: "training_cell Ham_Spam digits_data = Inr h"
    using digits_trains by blast
  note gl = scenario_globals [OF t]
  note hl = digits_globals [OF u]
  have z: "''zebra'' \<notin> set (vocabulary g)" by (simp add: gl)
  have y: "''hi'' \<notin> set (vocabulary h)" by (simp add: hl)
  have c: "class_total ''spam'' (cleaned_training_data scenario_data) = 4"
    by (simp add: scenario_cleaned_eq scenario_totals)
  note r = oov_amount_is_class_independent [OF t z]
  note q = oov_amount_is_class_independent [OF u y]
  have ne: "vocabulary g \<noteq> []" by (simp add: gl)
  have 1: "key g = ''spam''"
    using r [of undefined undefined undefined, THEN conjunct1] by simp
  have 2: "oov_prob g = (1 + 1) / (4 + 1 * 5)"
    using r [of undefined undefined undefined, THEN conjunct2, THEN conjunct1]
    by (simp add: 1 c gl(2))
  have 3: "score_words g ''ham'' 0 [''zebra''] = Inr (2/9)"
    by (subst r [THEN conjunct2, THEN conjunct2]) (simp add: ne 2)
  have 4: "score_words g ''spam'' 0 [''zebra''] = Inr (2/9)"
    by (subst r [THEN conjunct2, THEN conjunct2]) (simp add: ne 2)
  have 5: "score_words h ''ham'' 0 [''hi''] = Inl ZeroDivisionError"
    by (subst q [THEN conjunct2, THEN conjunct2]) (simp add: hl(2))
  have 6: "score_words h ''spam'' 0 [''hi''] = Inl ZeroDivisionError"
    by (subst q [THEN conjunct2, THEN conjunct2]) (simp add: hl(2))
  from 1 2 3 4 5 6 show ?thesis by (simp add: run_notebook_def t u)
qed

end
